theory Spec2Isabelle
  imports Main
begin

section \<open>File My Photos: catalogue, date resolution, duplicates, organizer, revert\<close>

text \<open>
  A shallow embedding of the backend services of the repository
  (\<^verbatim>\<open>dateResolver.js\<close>, \<^verbatim>\<open>duplicateDetector.js\<close>, \<^verbatim>\<open>organizer.js\<close>,
  \<^verbatim>\<open>revert.js\<close>, \<^verbatim>\<open>scanner.js\<close>) over an explicit state: the SQLite tables
  as lists of rows in rowid order, the filesystem as a map from path strings to file
  contents together with the set of directories, and the wall clock as a number of
  milliseconds since the Unix epoch.

  Library functions of the JavaScript runtime that the services call but that are not
  code of the repository (\<^verbatim>\<open>new Date(string)\<close>, local calendar fields of a date,
  SHA-256) are parameters, collected in the record \<open>runtime\<close>.
\<close>

subsection \<open>Runtime parameters\<close>

type_synonym path = string
type_synonym content = string

text \<open>
  \<open>parseDate s\<close> is the time value of \<^verbatim>\<open>new Date(s)\<close> in milliseconds, \<open>None\<close> for
  an Invalid Date. \<open>toISOString t\<close> renders the instant \<open>t\<close>. \<open>localDate t\<close> is
  \<^verbatim>\<open>(getFullYear(), getMonth() + 1, getDate())\<close> of the instant \<open>t\<close>. \<open>sha256 c\<close> is the
  hexadecimal digest of the content \<open>c\<close>.
\<close>

record runtime =
  parseDate :: "string \<Rightarrow> int option"
  toISOString :: "int \<Rightarrow> string"
  localDate :: "int \<Rightarrow> nat \<times> nat \<times> nat"
  sha256 :: "content \<Rightarrow> string"

text \<open>JavaScript truthiness of a nullable string: neither null/undefined nor empty.\<close>

definition truthy :: "string option \<Rightarrow> bool" where
  "truthy v = (case v of None \<Rightarrow> False | Some s \<Rightarrow> s \<noteq> [])"

subsection \<open>Date resolver (dateResolver.js)\<close>

text \<open>The part of the metadata object that \<^verbatim>\<open>resolveDate\<close> reads.\<close>

record date_candidates =
  exifDate :: "string option"
  createdAt :: "string option"
  modifiedAt :: "string option"

record resolved =
  date :: int
  source :: string

definition day_ms :: int where
  "day_ms = 86400000"

text \<open>
  \<^verbatim>\<open>isValidDate(date)\<close>: the argument is a Date object, given by its time value
  (\<open>None\<close> for NaN). \<^verbatim>\<open>minDate\<close> is \<^verbatim>\<open>new Date('1970-01-01')\<close>, time value 0;
  \<^verbatim>\<open>maxDate\<close> is the current time with the day of the month advanced by one.
\<close>

definition isValidDate :: "int \<Rightarrow> int option \<Rightarrow> bool" where
  "isValidDate now d =
     (case d of
        None \<Rightarrow> False
      | Some t \<Rightarrow> 0 \<le> t \<and> t \<le> now + day_ms)"

text \<open>
  \<^verbatim>\<open>resolveDate(metadata)\<close>. The returned \<^verbatim>\<open>date\<close> is
  \<^verbatim>\<open>date.toISOString()\<close>, kept here as the instant it renders; the scanner applies
  \<open>toISOString\<close> when it stores the date.
\<close>

definition resolveDate :: "runtime \<Rightarrow> int \<Rightarrow> date_candidates \<Rightarrow> resolved" where
  "resolveDate rt now metadata =
     (if truthy (exifDate metadata)
         \<and> isValidDate now (parseDate rt (the (exifDate metadata)))
      then \<lparr>date = the (parseDate rt (the (exifDate metadata))), source = ''exif''\<rparr>
      else if truthy (createdAt metadata)
         \<and> isValidDate now (parseDate rt (the (createdAt metadata)))
      then \<lparr>date = the (parseDate rt (the (createdAt metadata))), source = ''created''\<rparr>
      else if truthy (modifiedAt metadata)
         \<and> isValidDate now (parseDate rt (the (modifiedAt metadata)))
      then \<lparr>date = the (parseDate rt (the (modifiedAt metadata))), source = ''modified''\<rparr>
      else \<lparr>date = now, source = ''discovered''\<rparr>)"




text \<open>A runtime and a metadata object as in the repository's unit test of the resolver.\<close>

definition test_runtime :: runtime where
  "test_runtime =
     \<lparr>parseDate = (\<lambda>s. if s = ''2023-07-15T10:30:00.000Z'' then Some 1689417000000
                       else if s = ''2023-08-01T00:00:00.000Z'' then Some 1690848000000
                       else if s = ''2023-09-01T00:00:00.000Z'' then Some 1693526400000
                       else None),
      toISOString = (\<lambda>t. if t = 1689417000000 then ''2023-07-15T10:30:00.000Z''
                       else if t = 1690848000000 then ''2023-08-01T00:00:00.000Z''
                       else if t = 1693526400000 then ''2023-09-01T00:00:00.000Z''
                       else ''1970-01-01T00:00:00.000Z''),
      localDate = (\<lambda>t. if t = 1689417000000 then (2023, 7, 15)
                       else if t = 1690848000000 then (2023, 8, 1)
                       else if t = 1693526400000 then (2023, 9, 1)
                       else (1970, 1, 1)),
      sha256 = (\<lambda>c. ''sha256:'' @ c)\<rparr>"



subsection \<open>Date resolver: results\<close>











subsection \<open>Paths (the POSIX functions of Node's path module)\<close>

definition lastSegment :: "path \<Rightarrow> string" where
  "lastSegment p =
     rev (takeWhile (\<lambda>c. c \<noteq> CHR ''/'') (dropWhile (\<lambda>c. c = CHR ''/'') (rev p)))"

definition dirname :: "path \<Rightarrow> path" where
  "dirname p =
     (if p = [] then ''.''
      else let hasRoot = (hd p = CHR ''/'');
               r1 = dropWhile (\<lambda>c. c = CHR ''/'') (rev (tl p));
               r2 = dropWhile (\<lambda>c. c \<noteq> CHR ''/'') r1
           in if r2 = [] then (if hasRoot then ''/'' else ''.'')
              else if hasRoot \<and> tl r2 = [] then ''//''
              else hd p # rev (tl r2))"

definition extname :: "path \<Rightarrow> string" where
  "extname p =
     (let seg = lastSegment p;
          afterDot = takeWhile (\<lambda>c. c \<noteq> CHR ''.'') (rev seg);
          upToDot = dropWhile (\<lambda>c. c \<noteq> CHR ''.'') (rev seg)
      in if upToDot = [] \<or> tl upToDot = [] \<or> seg = ''..'' then []
         else CHR ''.'' # rev afterDot)"

definition basename :: "path \<Rightarrow> string \<Rightarrow> string" where
  "basename p suffix =
     (let seg = lastSegment p in
      if suffix \<noteq> [] \<and> length suffix \<le> length p then
        (if suffix = p then []
         else if length suffix < length seg
                 \<and> drop (length seg - length suffix) seg = suffix
         then take (length seg - length suffix) seg
         else if length seg < length suffix
                 \<and> drop (length suffix - length seg) suffix = seg
         then seg @ takeWhile (\<lambda>c. c = CHR ''/'') (rev p)
         else seg)
      else seg)"

fun splitOn :: "char \<Rightarrow> string \<Rightarrow> string list" where
  "splitOn c [] = [[]]"
| "splitOn c (x # xs) =
     (if x = c then [] # splitOn c xs
      else (case splitOn c xs of [] \<Rightarrow> [[x]] | s # ss \<Rightarrow> (x # s) # ss))"

fun joinWith :: "string \<Rightarrow> string list \<Rightarrow> string" where
  "joinWith sep [] = []"
| "joinWith sep [s] = s"
| "joinWith sep (s # t # ss) = s @ sep @ joinWith sep (t # ss)"

definition normalizeSegment :: "bool \<Rightarrow> string list \<Rightarrow> string \<Rightarrow> string list" where
  "normalizeSegment allowAboveRoot res seg =
     (if seg = [] \<or> seg = ''.'' then res
      else if seg = ''..'' then
        (if res \<noteq> [] \<and> last res \<noteq> ''..'' then butlast res
         else if allowAboveRoot then res @ [''..''] else res)
      else res @ [seg])"

definition normalize :: "path \<Rightarrow> path" where
  "normalize p =
     (if p = [] then ''.''
      else let isAbsolute = (hd p = CHR ''/'');
               trailingSeparator = (last p = CHR ''/'');
               segs = foldl (normalizeSegment (\<not> isAbsolute)) [] (splitOn CHR ''/'' p)
           in if segs = [] then (if isAbsolute then ''/'' else if trailingSeparator then ''./'' else ''.'')
              else (if isAbsolute then ''/'' else []) @ joinWith ''/'' segs
                   @ (if trailingSeparator then ''/'' else []))"

definition join :: "path \<Rightarrow> string \<Rightarrow> path" where
  "join a b =
     (if a \<noteq> [] \<and> b \<noteq> [] then normalize (a @ ''/'' @ b)
      else if a \<noteq> [] then normalize a
      else if b \<noteq> [] then normalize b
      else ''.'')"

definition digit_char :: "nat \<Rightarrow> char" where
  "digit_char d = ''0123456789'' ! d"

function string_of_nat :: "nat \<Rightarrow> string" where
  "string_of_nat n =
     (if n < 10 then [digit_char n] else string_of_nat (n div 10) @ [digit_char (n mod 10)])"
  by pat_completeness auto
termination
  by (relation "measure (\<lambda>n. n)") auto

declare string_of_nat.simps [simp del]

subsection \<open>Collision handling (organizer.js)\<close>

text \<open>\<^verbatim>\<open>handleCollision(destPath, hash)\<close>: the candidate path with the given label.\<close>

definition candidate :: "path \<Rightarrow> string \<Rightarrow> path" where
  "candidate destPath label =
     (let dir = dirname destPath;
          ext = extname destPath;
          base = basename destPath ext
      in join dir (base @ '' ('' @ label @ '')'' @ ext))"

partial_function (option) collisionLoop ::
  "(path \<Rightarrow> bool) \<Rightarrow> path \<Rightarrow> string option \<Rightarrow> path \<Rightarrow> nat \<Rightarrow> path option" where
  "collisionLoop fileExists destPath hash finalPath counter =
     (if fileExists finalPath then
        (if counter + 1 > 100 \<and> truthy hash
         then Some (candidate destPath (take 8 (the hash)))
         else collisionLoop fileExists destPath hash
                (candidate destPath (string_of_nat counter)) (counter + 1))
      else Some finalPath)"

definition handleCollision :: "(path \<Rightarrow> bool) \<Rightarrow> path \<Rightarrow> string option \<Rightarrow> path option" where
  "handleCollision fileExists destPath hash = collisionLoop fileExists destPath hash destPath 1"

definition occupied_example :: "path \<Rightarrow> bool" where
  "occupied_example p = (p = ''/d/2023/07/15/a.txt'' \<or> p = ''/d/2023/07/15/a (1).txt'')"

subsection \<open>Paths and collision handling: results\<close>

lemma splitOn_nonempty: "splitOn c xs \<noteq> []"
  by (induction xs) (auto split: list.splits)

lemma splitOn_plain: "c \<notin> set xs \<Longrightarrow> splitOn c xs = [xs]"
  by (induction xs) auto

lemma splitOn_append: "splitOn c (xs @ c # ys) = splitOn c xs @ splitOn c ys"
  by (induction xs) (auto split: list.splits simp: splitOn_nonempty)

lemma joinWith_snoc:
  "joinWith sep (ss @ [s]) = (if ss = [] then s else joinWith sep ss @ sep @ s)"
  by (induction sep ss rule: joinWith.induct) auto

definition plain :: "string \<Rightarrow> bool" where
  "plain s = (CHR ''/'' \<notin> set s \<and> s \<noteq> [] \<and> s \<noteq> ''.'' \<and> s \<noteq> ''..'')"

definition joinPrefix :: "path \<Rightarrow> string" where
  "joinPrefix a =
     (let segs = foldl (normalizeSegment (hd a \<noteq> CHR ''/'')) [] (splitOn CHR ''/'' a)
      in (if hd a = CHR ''/'' then ''/'' else [])
         @ (if segs = [] then [] else joinWith ''/'' segs @ ''/''))"

lemma join_plain:
  assumes "a \<noteq> []" "plain b"
  shows "join a b = joinPrefix a @ b"
proof -
  from assms have b: "b \<noteq> []" "CHR ''/'' \<notin> set b" "b \<noteq> ''.''" "b \<noteq> ''..''"
    by (auto simp: plain_def)
  define P where "P = a @ ''/'' @ b"
  define R where "R = foldl (normalizeSegment (hd a \<noteq> CHR ''/'')) [] (splitOn CHR ''/'' a)"
  have sp: "splitOn CHR ''/'' P = splitOn CHR ''/'' a @ [b]"
    unfolding P_def using splitOn_append [of "CHR ''/''" a b] splitOn_plain [OF b(2)] by simp
  have P: "P \<noteq> []" "hd P = hd a" unfolding P_def using assms(1) by simp_all
  have "last b \<in> set b" using b(1) by simp
  with b(2) have "last b \<noteq> CHR ''/''" by metis
  with b(1) have lst: "last P \<noteq> CHR ''/''" unfolding P_def by simp
  have step: "normalizeSegment (hd a \<noteq> CHR ''/'') R b = R @ [b]"
    using b by (simp add: normalizeSegment_def)
  have segs: "foldl (normalizeSegment (hd P \<noteq> CHR ''/'')) [] (splitOn CHR ''/'' P) = R @ [b]"
    unfolding sp P(2) by (simp add: R_def [symmetric] step)
  have "normalize P = (if hd a = CHR ''/'' then ''/'' else []) @ joinWith ''/'' (R @ [b])"
    unfolding normalize_def Let_def segs using P lst by simp
  also have "\<dots> = joinPrefix a @ b"
    unfolding joinPrefix_def Let_def R_def [symmetric] by (simp add: joinWith_snoc)
  finally have "normalize P = joinPrefix a @ b" .
  moreover have "join a b = normalize P"
    unfolding join_def P_def using assms(1) b(1) by simp
  ultimately show ?thesis by simp
qed

lemma join_plain_inj:
  "a \<noteq> [] \<Longrightarrow> plain b \<Longrightarrow> plain b' \<Longrightarrow> join a b = join a b' \<Longrightarrow> b = b'"
  by (simp add: join_plain)

lemma dirname_unfold:
  "dirname p =
     (if p = [] then ''.''
      else if dropWhile (\<lambda>c. c \<noteq> CHR ''/'') (dropWhile (\<lambda>c. c = CHR ''/'') (rev (tl p))) = []
           then (if hd p = CHR ''/'' then ''/'' else ''.'')
      else if hd p = CHR ''/'' \<and> tl (dropWhile (\<lambda>c. c \<noteq> CHR ''/'') (dropWhile (\<lambda>c. c = CHR ''/'') (rev (tl p)))) = [] then ''//''
      else hd p # rev (tl (dropWhile (\<lambda>c. c \<noteq> CHR ''/'') (dropWhile (\<lambda>c. c = CHR ''/'') (rev (tl p))))))"
  unfolding dirname_def Let_def by (rule refl)

lemma dirname_nonempty: "dirname p \<noteq> []"
proof -
  define r2 where "r2 = dropWhile (\<lambda>c. c \<noteq> CHR ''/'') (dropWhile (\<lambda>c. c = CHR ''/'') (rev (tl p)))"
  have "dirname p =
     (if p = [] then ''.''
      else if r2 = [] then (if hd p = CHR ''/'' then ''/'' else ''.'')
      else if hd p = CHR ''/'' \<and> tl r2 = [] then ''//''
      else hd p # rev (tl r2))"
    unfolding r2_def by (rule dirname_unfold)
  then show ?thesis by (simp split: if_splits)
qed

lemma lastSegment_no_slash: "CHR ''/'' \<notin> set (lastSegment p)"
  by (auto simp: lastSegment_def dest: set_takeWhileD)

lemma lastSegment_length: "length (lastSegment p) \<le> length p"
proof -
  have "length (lastSegment p) \<le> length (dropWhile (\<lambda>c. c = CHR ''/'') (rev p))"
    by (simp add: lastSegment_def length_takeWhile_le)
  also have "\<dots> \<le> length (rev p)" by (rule length_dropWhile_le)
  finally show ?thesis by simp
qed

lemma extname_split:
  assumes "extname p \<noteq> []"
  shows "\<exists>b. b \<noteq> [] \<and> lastSegment p = b @ extname p"
proof -
  define seg where "seg = lastSegment p"
  define a where "a = takeWhile (\<lambda>c. c \<noteq> CHR ''.'') (rev seg)"
  define u where "u = dropWhile (\<lambda>c. c \<noteq> CHR ''.'') (rev seg)"
  have ex: "extname p = (if u = [] \<or> tl u = [] \<or> seg = ''..'' then [] else CHR ''.'' # rev a)"
    unfolding extname_def Let_def seg_def a_def u_def by (rule refl)
  from assms ex have u: "u \<noteq> []" "tl u \<noteq> []" and e: "extname p = CHR ''.'' # rev a"
    by (simp_all split: if_splits)
  have "\<not> (hd u \<noteq> CHR ''.'')"
    unfolding u_def using u(1) [unfolded u_def] by (rule hd_dropWhile)
  then have "hd u = CHR ''.''" by simp
  with u(1) have "u = CHR ''.'' # tl u" by (cases u) simp_all
  moreover have "rev seg = a @ u" unfolding a_def u_def by simp
  ultimately have "rev seg = a @ CHR ''.'' # tl u" by simp
  then have "rev (rev seg) = rev (a @ CHR ''.'' # tl u)" by (rule arg_cong)
  then have "seg = rev (tl u) @ CHR ''.'' # rev a" by simp
  with e have "lastSegment p = rev (tl u) @ extname p" by (simp add: seg_def)
  moreover have "rev (tl u) \<noteq> []" using u(2) by simp
  ultimately show ?thesis by blast
qed

lemma extname_no_slash: "CHR ''/'' \<notin> set (extname p)"
proof (cases "extname p = []")
  case True then show ?thesis by simp
next
  case False
  from extname_split [OF this] obtain b where "lastSegment p = b @ extname p" by blast
  with lastSegment_no_slash [of p] show ?thesis by auto
qed

lemma basename_extname_no_slash: "CHR ''/'' \<notin> set (basename p (extname p))"
proof (cases "extname p = []")
  case True
  then show ?thesis by (simp add: basename_def lastSegment_no_slash)
next
  case False
  from extname_split [OF this] obtain b where b: "b \<noteq> []" "lastSegment p = b @ extname p" by blast
  have len: "length (extname p) < length (lastSegment p)" using b by simp
  with lastSegment_length [of p] have "length (extname p) < length p" by simp
  then have ne: "extname p \<noteq> p" "length (extname p) \<le> length p" by auto
  have "basename p (extname p) = b"
    using False ne len b by (simp add: basename_def Let_def)
  with b lastSegment_no_slash [of p] show ?thesis by auto
qed

lemma candidate_name_plain:
  "CHR ''/'' \<notin> set label \<Longrightarrow> plain (basename p (extname p) @ '' ('' @ label @ '')'' @ extname p)"
proof -
  let ?s = "basename p (extname p) @ '' ('' @ label @ '')'' @ extname p"
  assume l: "CHR ''/'' \<notin> set label"
  have "3 \<le> length ?s" by simp
  then have "?s \<noteq> []" "?s \<noteq> ''.''" "?s \<noteq> ''..''" by auto
  moreover have "CHR ''/'' \<notin> set ?s"
    using l basename_extname_no_slash [of p] extname_no_slash [of p] by simp
  ultimately show ?thesis unfolding plain_def by blast
qed

lemma candidate_inj:
  assumes "CHR ''/'' \<notin> set l1" "CHR ''/'' \<notin> set l2" "candidate p l1 = candidate p l2"
  shows "l1 = l2"
proof -
  let ?n1 = "basename p (extname p) @ '' ('' @ l1 @ '')'' @ extname p"
  let ?n2 = "basename p (extname p) @ '' ('' @ l2 @ '')'' @ extname p"
  from assms(3) have "join (dirname p) ?n1 = join (dirname p) ?n2"
    by (simp add: candidate_def Let_def)
  then have "?n1 = ?n2"
    using join_plain_inj [OF dirname_nonempty candidate_name_plain [OF assms(1)] candidate_name_plain [OF assms(2)]]
    by blast
  then show ?thesis by simp
qed

lemma digit_char_no_slash: "d < 10 \<Longrightarrow> digit_char d \<noteq> CHR ''/''"
proof -
  assume "d < 10"
  then have "digit_char d \<in> set ''0123456789''"
    unfolding digit_char_def by (intro nth_mem) simp
  then show ?thesis by auto
qed

lemma string_of_nat_no_slash: "CHR ''/'' \<notin> set (string_of_nat n)"
proof (induction n rule: string_of_nat.induct)
  case (1 n)
  show ?case
  proof (cases "n < 10")
    case True
    then show ?thesis
      using digit_char_no_slash [of n] by (subst string_of_nat.simps) auto
  next
    case False
    have "n mod 10 < 10" by simp
    then have "digit_char (n mod 10) \<noteq> CHR ''/''" by (rule digit_char_no_slash)
    with False "1.IH" show ?thesis by (subst string_of_nat.simps) auto
  qed
qed

lemma string_of_nat_short: "n < 100 \<Longrightarrow> length (string_of_nat n) \<le> 2"
proof -
  assume n: "n < 100"
  show ?thesis
  proof (cases "n < 10")
    case True
    then show ?thesis by (subst string_of_nat.simps) simp
  next
    case False
    from n have "n div 10 < 10" by simp
    then have "string_of_nat (n div 10) = [digit_char (n div 10)]"
      by (subst string_of_nat.simps) simp
    with False show ?thesis by (subst string_of_nat.simps) simp
  qed
qed

lemma hash_candidate_distinct:
  assumes "8 \<le> length h" "CHR ''/'' \<notin> set (take 8 h)" "m < 100"
  shows "candidate p (take 8 h) \<noteq> candidate p (string_of_nat m)"
proof
  assume "candidate p (take 8 h) = candidate p (string_of_nat m)"
  then have "take 8 h = string_of_nat m"
    using candidate_inj [OF assms(2) string_of_nat_no_slash] by blast
  then have "length (take 8 h) = length (string_of_nat m)" by simp
  with assms(1) string_of_nat_short [OF assms(3)] show False by simp
qed

lemma collisionLoop_bounded:
  assumes "h \<noteq> []"
  shows "k \<le> 100 \<Longrightarrow>
    \<exists>p. collisionLoop ex dp (Some h) fp k = Some p
       \<and> (p = fp \<and> \<not> ex fp
          \<or> (\<exists>n. k \<le> n \<and> n < 100 \<and> p = candidate dp (string_of_nat n) \<and> \<not> ex p \<and> ex fp
                \<and> (\<forall>m. k \<le> m \<and> m < n \<longrightarrow> ex (candidate dp (string_of_nat m))))
          \<or> (p = candidate dp (take 8 h) \<and> ex fp
                \<and> (\<forall>m. k \<le> m \<and> m < 100 \<longrightarrow> ex (candidate dp (string_of_nat m)))))"
proof (induction "100 - k" arbitrary: k fp)
  case 0
  then have k: "k = 100" by simp
  show ?case
  proof (cases "ex fp")
    case True
    then have "collisionLoop ex dp (Some h) fp k = Some (candidate dp (take 8 h))"
      using assms k by (subst collisionLoop.simps) (simp add: truthy_def)
    with True k show ?thesis by auto
  next
    case False
    then have "collisionLoop ex dp (Some h) fp k = Some fp"
      by (subst collisionLoop.simps) simp
    with False show ?thesis by simp
  qed
next
  case (Suc d)
  then have k: "k < 100" and d: "d = 100 - (k + 1)" and k1: "k + 1 \<le> 100" by simp_all
  show ?case
  proof (cases "ex fp")
    case False
    then have "collisionLoop ex dp (Some h) fp k = Some fp"
      by (subst collisionLoop.simps) simp
    with False show ?thesis by simp
  next
    case True
    let ?c = "candidate dp (string_of_nat k)"
    have step: "collisionLoop ex dp (Some h) fp k = collisionLoop ex dp (Some h) ?c (k + 1)"
      using True k by (subst collisionLoop.simps) simp
    from Suc.hyps(1) [OF d k1, of ?c]
    obtain p where p: "collisionLoop ex dp (Some h) ?c (k + 1) = Some p"
      and cases: "p = ?c \<and> \<not> ex ?c
          \<or> (\<exists>n. k + 1 \<le> n \<and> n < 100 \<and> p = candidate dp (string_of_nat n) \<and> \<not> ex p \<and> ex ?c
                \<and> (\<forall>m. k + 1 \<le> m \<and> m < n \<longrightarrow> ex (candidate dp (string_of_nat m))))
          \<or> (p = candidate dp (take 8 h) \<and> ex ?c
                \<and> (\<forall>m. k + 1 \<le> m \<and> m < 100 \<longrightarrow> ex (candidate dp (string_of_nat m))))"
      by blast
    from cases consider
        (a) "p = ?c" "\<not> ex ?c"
      | (b) n where "k + 1 \<le> n" "n < 100" "p = candidate dp (string_of_nat n)" "\<not> ex p" "ex ?c"
              "\<forall>m. k + 1 \<le> m \<and> m < n \<longrightarrow> ex (candidate dp (string_of_nat m))"
      | (c) "p = candidate dp (take 8 h)" "ex ?c"
              "\<forall>m. k + 1 \<le> m \<and> m < 100 \<longrightarrow> ex (candidate dp (string_of_nat m))"
      by blast
    then have "(\<exists>n. k \<le> n \<and> n < 100 \<and> p = candidate dp (string_of_nat n) \<and> \<not> ex p \<and> ex fp
                \<and> (\<forall>m. k \<le> m \<and> m < n \<longrightarrow> ex (candidate dp (string_of_nat m))))
          \<or> (p = candidate dp (take 8 h) \<and> ex fp
                \<and> (\<forall>m. k \<le> m \<and> m < 100 \<longrightarrow> ex (candidate dp (string_of_nat m))))"
    proof cases
      case a
      with True k have "k \<le> k \<and> k < 100 \<and> p = candidate dp (string_of_nat k) \<and> \<not> ex p \<and> ex fp
                \<and> (\<forall>m. k \<le> m \<and> m < k \<longrightarrow> ex (candidate dp (string_of_nat m)))" by auto
      then show ?thesis by blast
    next
      case b
      have "\<forall>m. k \<le> m \<and> m < n \<longrightarrow> ex (candidate dp (string_of_nat m))"
      proof (intro allI impI)
        fix m assume m: "k \<le> m \<and> m < n"
        show "ex (candidate dp (string_of_nat m))"
        proof (cases "m = k")
          case True with b(5) show ?thesis by simp
        next
          case False with m b(6) show ?thesis by simp
        qed
      qed
      with b True have "k \<le> n \<and> n < 100 \<and> p = candidate dp (string_of_nat n) \<and> \<not> ex p \<and> ex fp
                \<and> (\<forall>m. k \<le> m \<and> m < n \<longrightarrow> ex (candidate dp (string_of_nat m)))" by simp
      then show ?thesis by blast
    next
      case c
      have "\<forall>m. k \<le> m \<and> m < 100 \<longrightarrow> ex (candidate dp (string_of_nat m))"
      proof (intro allI impI)
        fix m assume m: "k \<le> m \<and> m < 100"
        show "ex (candidate dp (string_of_nat m))"
        proof (cases "m = k")
          case True with c(2) show ?thesis by simp
        next
          case False with m c(3) show ?thesis by simp
        qed
      qed
      with c True show ?thesis by simp
    qed
    with step p show ?thesis by simp
  qed
qed

lemma handleCollision_example:
  "handleCollision occupied_example ''/d/2023/07/15/a.txt'' (Some ''0123456789abcdef'') = Some ''/d/2023/07/15/a (2).txt''"
  unfolding handleCollision_def
  apply (subst collisionLoop.simps)
  apply (subst collisionLoop.simps)
  apply (subst collisionLoop.simps)
  apply (simp add: occupied_example_def candidate_def dirname_def extname_def basename_def lastSegment_def
      join_def normalize_def normalizeSegment_def string_of_nat.simps digit_char_def truthy_def Let_def)
  done

text \<open>
  C6: for every proposed destination path and every state of the destination directory
  (\<open>fileExists\<close> is arbitrary), collision resolution with a fingerprint of at least
  eight characters returns: either the proposed path, free; or the first free numbered
  candidate \<^verbatim>\<open> (n)\<close>, \<open>n < 100\<close>, all earlier candidates being occupied; or, when the
  proposed path and the candidates 1 to 99 are all occupied (100 failed attempts), the
  candidate labelled with the first eight characters of the fingerprint. The returned
  path differs from every occupied numbered candidate.
\<close>

theorem handleCollision_terminates:
  assumes "8 \<le> length h" and "CHR ''/'' \<notin> set (take 8 h)"
  shows "\<exists>p. handleCollision fileExists destPath (Some h) = Some p
     \<and> (p = destPath \<and> \<not> fileExists destPath
        \<or> (\<exists>n. 1 \<le> n \<and> n < 100 \<and> p = candidate destPath (string_of_nat n)
              \<and> \<not> fileExists p \<and> fileExists destPath
              \<and> (\<forall>m. 1 \<le> m \<and> m < n \<longrightarrow> fileExists (candidate destPath (string_of_nat m))))
        \<or> (p = candidate destPath (take 8 h) \<and> length (take 8 h) = 8 \<and> fileExists destPath
              \<and> (\<forall>m. 1 \<le> m \<and> m < 100 \<longrightarrow> fileExists (candidate destPath (string_of_nat m)))))
     \<and> (\<forall>m. 1 \<le> m \<and> m < 100 \<and> fileExists (candidate destPath (string_of_nat m))
            \<longrightarrow> p \<noteq> candidate destPath (string_of_nat m))"
proof -
  from assms(1) have h: "h \<noteq> []" by auto
  from collisionLoop_bounded [OF h, of 1 fileExists destPath destPath]
  obtain p where p: "handleCollision fileExists destPath (Some h) = Some p"
    and shape: "p = destPath \<and> \<not> fileExists destPath
        \<or> (\<exists>n. 1 \<le> n \<and> n < 100 \<and> p = candidate destPath (string_of_nat n)
              \<and> \<not> fileExists p \<and> fileExists destPath
              \<and> (\<forall>m. 1 \<le> m \<and> m < n \<longrightarrow> fileExists (candidate destPath (string_of_nat m))))
        \<or> (p = candidate destPath (take 8 h) \<and> fileExists destPath
              \<and> (\<forall>m. 1 \<le> m \<and> m < 100 \<longrightarrow> fileExists (candidate destPath (string_of_nat m))))"
    unfolding handleCollision_def by auto
  have len: "length (take 8 h) = 8" using assms(1) by simp
  have distinct: "\<forall>m. 1 \<le> m \<and> m < 100 \<and> fileExists (candidate destPath (string_of_nat m))
            \<longrightarrow> p \<noteq> candidate destPath (string_of_nat m)"
  proof (intro allI impI)
    fix m assume m: "1 \<le> m \<and> m < 100 \<and> fileExists (candidate destPath (string_of_nat m))"
    from shape consider (free) "\<not> fileExists p" | (hash) "p = candidate destPath (take 8 h)"
      by blast
    then show "p \<noteq> candidate destPath (string_of_nat m)"
    proof cases
      case free with m show ?thesis by auto
    next
      case hash
      with hash_candidate_distinct [OF assms, of m destPath] m show ?thesis by simp
    qed
  qed
  from p shape len distinct show ?thesis by blast
qed

theorem handleCollision_terminates_witness:
  "8 \<le> length ''0123456789abcdef''
   \<and> CHR ''/'' \<notin> set (take 8 ''0123456789abcdef'')
   \<and> (\<exists>p. handleCollision occupied_example ''/d/2023/07/15/a.txt'' (Some ''0123456789abcdef'') = Some p
          \<and> (\<forall>m. 1 \<le> m \<and> m < 100
                   \<and> occupied_example (candidate ''/d/2023/07/15/a.txt'' (string_of_nat m))
                 \<longrightarrow> p \<noteq> candidate ''/d/2023/07/15/a.txt'' (string_of_nat m)))
   \<and> handleCollision occupied_example ''/d/2023/07/15/a.txt'' (Some ''0123456789abcdef'')
        = Some ''/d/2023/07/15/a (2).txt''"
proof -
  have h1: "8 \<le> length ''0123456789abcdef''" by simp
  have h2: "CHR ''/'' \<notin> set (take 8 ''0123456789abcdef'')" by simp
  from handleCollision_terminates [OF h1 h2, of occupied_example "''/d/2023/07/15/a.txt''"]
  have "\<exists>p. handleCollision occupied_example ''/d/2023/07/15/a.txt'' (Some ''0123456789abcdef'') = Some p
          \<and> (\<forall>m. 1 \<le> m \<and> m < 100
                   \<and> occupied_example (candidate ''/d/2023/07/15/a.txt'' (string_of_nat m))
                 \<longrightarrow> p \<noteq> candidate ''/d/2023/07/15/a.txt'' (string_of_nat m))"
    by blast
  with h1 h2 handleCollision_example show ?thesis by blast
qed

subsection \<open>Catalogue (database/migrations.js, database/index.js)\<close>

text \<open>
  The tables \<^verbatim>\<open>files\<close>, \<^verbatim>\<open>operations\<close> and \<^verbatim>\<open>errors\<close>, each a list of rows in rowid
  order. The enumerated TEXT columns are datatypes; identifiers are the AUTOINCREMENT
  integers; batch identifiers (UUIDs) are numbers drawn from a counter.
\<close>

datatype file_status = Pending | Moved | Duplicate | ErrorStatus

datatype op_type = ScanOp | MoveOp | SkipOp | DuplicateOp | ErrorOp | RevertOp

datatype op_status = Completed | Reverted | Failed

record file_row =
  file_id :: nat
  original_path :: path
  current_path :: "path option"
  filename :: string
  extension :: "string option"
  size_bytes :: nat
  hash_sha256 :: "string option"
  hash_partial :: "string option"
  mime_type :: "string option"
  created_at :: "string option"
  modified_at :: "string option"
  exif_date :: "string option"
  resolved_date :: "string option"
  date_source :: "string option"
  status :: file_status
  duplicate_of :: "nat option"
  metadata_json :: "string option"
  created_timestamp :: int
  updated_timestamp :: int

record operation_row =
  op_id :: nat
  batch_id :: nat
  op_file_id :: "nat option"
  operation_type :: op_type
  source_path :: path
  destination_path :: "path option"
  hash_used :: "string option"
  reason :: string
  op_status :: op_status
  op_created_at :: int

record error_row =
  error_id :: nat
  error_file_id :: "nat option"
  file_path :: path
  error_type :: string
  error_message :: string

text \<open>
  The state the services act on: the filesystem (regular files with their contents, and
  the set of directories), the three tables with their AUTOINCREMENT counters, the UUID
  counter, and the clock (milliseconds since the epoch; \<^verbatim>\<open>CURRENT_TIMESTAMP\<close> is its
  whole seconds).
\<close>

record state =
  fs_files :: "path \<rightharpoonup> content"
  fs_dirs :: "path set"
  files_table :: "file_row list"
  operations_table :: "operation_row list"
  errors_table :: "error_row list"
  next_file_id :: nat
  next_op_id :: nat
  next_error_id :: nat
  next_uuid :: nat
  clock :: int

definition current_timestamp :: "state \<Rightarrow> int" where
  "current_timestamp s = clock s div 1000"

text \<open>\<^verbatim>\<open>fileQueries.updateFile().run(params)\<close>: the parameters are given as a row.\<close>

definition updateFile :: "file_row \<Rightarrow> state \<Rightarrow> state" where
  "updateFile params s =
     s\<lparr>files_table :=
          map (\<lambda>r. if file_id r = file_id params
                    then r\<lparr>current_path := current_path params,
                           hash_sha256 := hash_sha256 params,
                           hash_partial := hash_partial params,
                           mime_type := mime_type params,
                           exif_date := exif_date params,
                           resolved_date := resolved_date params,
                           date_source := date_source params,
                           status := status params,
                           duplicate_of := duplicate_of params,
                           metadata_json := metadata_json params,
                           updated_timestamp := current_timestamp s\<rparr>
                    else r)
              (files_table s)\<rparr>"

definition getFileById :: "state \<Rightarrow> nat option \<Rightarrow> file_row option" where
  "getFileById s i =
     (case i of None \<Rightarrow> None
      | Some n \<Rightarrow> List.find (\<lambda>r. file_id r = n) (files_table s))"

definition getFileByPath :: "state \<Rightarrow> path \<Rightarrow> file_row option" where
  "getFileByPath s p = List.find (\<lambda>r. original_path r = p) (files_table s)"

definition getFilesByStatus :: "state \<Rightarrow> file_status \<Rightarrow> file_row list" where
  "getFilesByStatus s st = filter (\<lambda>r. status r = st) (files_table s)"

text \<open>\<^verbatim>\<open>operationQueries.insertOperation().run(...)\<close>; the row's status is always given.\<close>

definition insertOperation ::
  "nat \<Rightarrow> nat option \<Rightarrow> op_type \<Rightarrow> path \<Rightarrow> path option \<Rightarrow> string option \<Rightarrow> string
     \<Rightarrow> op_status \<Rightarrow> state \<Rightarrow> state" where
  "insertOperation batchId fileId operationType sourcePath destPath hash reason' st s =
     s\<lparr>operations_table := operations_table s @
          [\<lparr>op_id = next_op_id s, batch_id = batchId, op_file_id = fileId,
            operation_type = operationType, source_path = sourcePath,
            destination_path = destPath, hash_used = hash, reason = reason',
            op_status = st, op_created_at = current_timestamp s\<rparr>],
       next_op_id := next_op_id s + 1\<rparr>"

definition updateOperationStatus :: "op_status \<Rightarrow> nat \<Rightarrow> state \<Rightarrow> state" where
  "updateOperationStatus st i s =
     s\<lparr>operations_table :=
          map (\<lambda>r. if op_id r = i then r\<lparr>op_status := st\<rparr> else r) (operations_table s)\<rparr>"

definition insertError :: "nat option \<Rightarrow> path \<Rightarrow> string \<Rightarrow> string \<Rightarrow> state \<Rightarrow> state" where
  "insertError fileId filePath errorType message s =
     s\<lparr>errors_table := errors_table s @
          [\<lparr>error_id = next_error_id s, error_file_id = fileId, file_path = filePath,
            error_type = errorType, error_message = message\<rparr>],
       next_error_id := next_error_id s + 1\<rparr>"

subsection \<open>Duplicate detector (duplicateDetector.js)\<close>

record duplicate_group =
  group_hash :: string
  group_count :: nat
  totalSize :: nat
  group_files :: "file_row list"
  original :: "file_row option"
  duplicates :: "file_row list"

text \<open>
  The first query of \<^verbatim>\<open>findAllDuplicateGroups\<close>: the fingerprints that at least two rows
  with a status other than \<^verbatim>\<open>error\<close> share.
\<close>

definition duplicateHashes :: "state \<Rightarrow> string list" where
  "duplicateHashes s =
     (let counted = filter (\<lambda>r. hash_sha256 r \<noteq> None \<and> status r \<noteq> ErrorStatus) (files_table s)
      in filter (\<lambda>h. length (filter (\<lambda>r. hash_sha256 r = Some h) counted) > 1)
           (remdups (map (\<lambda>r. the (hash_sha256 r)) counted)))"

text \<open>
  The second query, per fingerprint: all rows with that fingerprint, whatever their
  status, ordered by \<^verbatim>\<open>created_timestamp\<close>. \<^verbatim>\<open>files[0]\<close> is \<open>None\<close> (undefined) for an
  empty list.
\<close>

definition filesWithHash :: "state \<Rightarrow> string \<Rightarrow> file_row list" where
  "filesWithHash s h =
     sort_key created_timestamp (filter (\<lambda>r. hash_sha256 r = Some h) (files_table s))"

definition findAllDuplicateGroups :: "state \<Rightarrow> duplicate_group list" where
  "findAllDuplicateGroups s =
     map (\<lambda>h. let files = filesWithHash s h in
               \<lparr>group_hash = h,
                group_count = length files,
                totalSize = sum_list (map size_bytes files),
                group_files = files,
                original = (case files of [] \<Rightarrow> None | f # _ \<Rightarrow> Some f),
                duplicates = drop 1 files\<rparr>)
         (duplicateHashes s)"

text \<open>\<^verbatim>\<open>markDuplicates\<close>: the groups are computed once, then every pending duplicate is updated.\<close>

fun markGroupDuplicates :: "nat \<Rightarrow> file_row list \<Rightarrow> state \<times> nat \<Rightarrow> state \<times> nat" where
  "markGroupDuplicates originalId [] acc = acc"
| "markGroupDuplicates originalId (duplicate # rest) (s, markedCount) =
     markGroupDuplicates originalId rest
       (if status duplicate = Pending
        then (updateFile (duplicate\<lparr>status := Duplicate, duplicate_of := Some originalId\<rparr>) s,
              markedCount + 1)
        else (s, markedCount))"

fun markGroups :: "duplicate_group list \<Rightarrow> state \<times> nat \<Rightarrow> state \<times> nat" where
  "markGroups [] acc = acc"
| "markGroups (g # gs) acc =
     markGroups gs
       (case original g of
          None \<Rightarrow> acc
        | Some orig \<Rightarrow> markGroupDuplicates (file_id orig) (duplicates g) acc)"

definition markDuplicates :: "state \<Rightarrow> state \<times> nat \<times> nat" where
  "markDuplicates s =
     (let groups = findAllDuplicateGroups s;
          (s', markedCount) = markGroups groups (s, 0)
      in (s', length groups, markedCount))"

text \<open>Example rows and states for closed evaluations.\<close>

definition example_row :: "nat \<Rightarrow> path \<Rightarrow> string \<Rightarrow> string \<Rightarrow> file_status \<Rightarrow> int \<Rightarrow> file_row" where
  "example_row i p name h st ts =
     \<lparr>file_id = i, original_path = p, current_path = Some p, filename = name,
      extension = None, size_bytes = 5, hash_sha256 = Some h, hash_partial = Some h,
      mime_type = None, created_at = None, modified_at = None, exif_date = None,
      resolved_date = Some ''2023-07-15T10:30:00.000Z'', date_source = Some ''exif'',
      status = st, duplicate_of = None, metadata_json = None,
      created_timestamp = ts, updated_timestamp = ts\<rparr>"

definition empty_state :: state where
  "empty_state =
     \<lparr>fs_files = Map.empty, fs_dirs = {}, files_table = [], operations_table = [],
      errors_table = [], next_file_id = 1, next_op_id = 1, next_error_id = 1,
      next_uuid = 1, clock = 1700000000000\<rparr>"

definition error_member_state :: state where
  "error_member_state =
     empty_state\<lparr>files_table :=
       [example_row 1 ''/s/a.txt'' ''a.txt'' ''0123456789abcdef'' ErrorStatus 1,
        example_row 2 ''/s/b.txt'' ''b.txt'' ''0123456789abcdef'' Pending 2,
        example_row 3 ''/s/c.txt'' ''c.txt'' ''0123456789abcdef'' Pending 3],
       next_file_id := 4\<rparr>"

lemma duplicateHashes_counted:
  assumes "h \<in> set (duplicateHashes s)"
  shows "2 \<le> length (filter (\<lambda>r. hash_sha256 r = Some h \<and> status r \<noteq> ErrorStatus) (files_table s))"
proof -
  define counted where "counted = filter (\<lambda>r. hash_sha256 r \<noteq> None \<and> status r \<noteq> ErrorStatus) (files_table s)"
  from assms have "1 < length (filter (\<lambda>r. hash_sha256 r = Some h) counted)"
    unfolding duplicateHashes_def counted_def Let_def by simp
  moreover have "filter (\<lambda>r. hash_sha256 r = Some h) counted
      = filter (\<lambda>r. hash_sha256 r = Some h \<and> status r \<noteq> ErrorStatus) (files_table s)"
    unfolding counted_def by (induction "files_table s") (auto intro: filter_cong simp: filter_filter)
  ultimately show ?thesis by simp
qed

lemma filesWithHash_set:
  "set (filesWithHash s h) = {r \<in> set (files_table s). hash_sha256 r = Some h}"
  by (auto simp: filesWithHash_def)

lemma filesWithHash_sorted: "sorted (map created_timestamp (filesWithHash s h))"
  by (simp add: filesWithHash_def)

lemma filesWithHash_length:
  "length (filesWithHash s h) = length (filter (\<lambda>r. hash_sha256 r = Some h) (files_table s))"
  by (simp add: filesWithHash_def)

lemma filter_length_mono:
  "(\<And>x. P x \<Longrightarrow> Q x) \<Longrightarrow> length (filter P xs) \<le> length (filter Q xs)"
  by (induction xs) auto

text \<open>
  What holds of every group the code returns: at least two rows that are not in error
  share the fingerprint, the listed files are exactly the rows with that fingerprint,
  ordered by discovery time, the first is the original and the rest are the duplicates.
\<close>

lemma findAllDuplicateGroups_shape:
  assumes "g \<in> set (findAllDuplicateGroups s)"
  shows "2 \<le> length (filter (\<lambda>r. status r \<noteq> ErrorStatus) (group_files g))
    \<and> set (group_files g) = {r \<in> set (files_table s). hash_sha256 r = Some (group_hash g)}
    \<and> sorted (map created_timestamp (group_files g))
    \<and> (\<exists>orig. original g = Some orig \<and> group_files g = orig # duplicates g
          \<and> (\<forall>r \<in> set (group_files g). created_timestamp orig \<le> created_timestamp r))"
proof -
  from assms obtain h where h: "h \<in> set (duplicateHashes s)"
    and g: "g = \<lparr>group_hash = h, group_count = length (filesWithHash s h),
                 totalSize = sum_list (map size_bytes (filesWithHash s h)),
                 group_files = filesWithHash s h,
                 original = (case filesWithHash s h of [] \<Rightarrow> None | f # _ \<Rightarrow> Some f),
                 duplicates = drop 1 (filesWithHash s h)\<rparr>"
    unfolding findAllDuplicateGroups_def Let_def by auto
  let ?fs = "filesWithHash s h"
  have "length (filter (\<lambda>r. status r \<noteq> ErrorStatus) ?fs)
      = length (filter (\<lambda>r. status r \<noteq> ErrorStatus) (filter (\<lambda>r. hash_sha256 r = Some h) (files_table s)))"
    unfolding filesWithHash_def by (simp add: filter_sort)
  also have "\<dots> = length (filter (\<lambda>r. hash_sha256 r = Some h \<and> status r \<noteq> ErrorStatus) (files_table s))"
    by (simp add: filter_filter conj_commute)
  finally have two: "2 \<le> length (filter (\<lambda>r. status r \<noteq> ErrorStatus) ?fs)"
    using duplicateHashes_counted [OF h] by simp
  then have "?fs \<noteq> []" by auto
  then obtain orig rest where cons: "?fs = orig # rest" by (cases ?fs) auto
  have sorted: "sorted (map created_timestamp ?fs)" by (rule filesWithHash_sorted)
  with cons have least: "\<forall>r \<in> set ?fs. created_timestamp orig \<le> created_timestamp r"
    by auto
  show ?thesis
    using two filesWithHash_set [of s h] sorted cons least unfolding g by simp
qed


lemma markDuplicates_error_original:
  "map (\<lambda>r. (file_id r, status r, duplicate_of r)) (files_table (fst (markDuplicates error_member_state)))
     = [(1, ErrorStatus, None), (2, Duplicate, Some 1), (3, Duplicate, Some 1)]"
  by (simp add: markDuplicates_def findAllDuplicateGroups_def duplicateHashes_def filesWithHash_def
      error_member_state_def empty_state_def example_row_def updateFile_def Let_def)

subsection \<open>Filesystem operations (Node's fs/promises, as the services use them)\<close>

text \<open>
  Paths are compared as strings. \<^verbatim>\<open>fs.access(p)\<close> succeeds when a regular file or a
  directory is at \<open>p\<close>; called with null it throws.
\<close>

definition access :: "state \<Rightarrow> path \<Rightarrow> bool" where
  "access s p = (fs_files s p \<noteq> None \<or> p \<in> fs_dirs s)"

definition accessOpt :: "state \<Rightarrow> path option \<Rightarrow> bool" where
  "accessOpt s p = (case p of None \<Rightarrow> False | Some q \<Rightarrow> access s q)"

lemma dirname_cases:
  "dirname p = ''.'' \<or> dirname p = ''/'' \<or> length (dirname p) < length p"
proof -
  define r1 where "r1 = dropWhile (\<lambda>c. c = CHR ''/'') (rev (tl p))"
  define r2 where "r2 = dropWhile (\<lambda>c. c \<noteq> CHR ''/'') r1"
  have d: "dirname p =
     (if p = [] then ''.''
      else if r2 = [] then (if hd p = CHR ''/'' then ''/'' else ''.'')
      else if hd p = CHR ''/'' \<and> tl r2 = [] then ''//''
      else hd p # rev (tl r2))"
    unfolding r2_def r1_def by (rule dirname_unfold)
  show ?thesis
  proof (cases "p = [] \<or> r2 = []")
    case True
    with d show ?thesis by auto
  next
    case False
    then have p: "p \<noteq> []" and r2: "r2 \<noteq> []" by simp_all
    from r2 have r1: "r1 \<noteq> []" unfolding r2_def by auto
    have "\<not> (hd r1 = CHR ''/'')"
      unfolding r1_def using r1 [unfolded r1_def] by (rule hd_dropWhile)
    with r1 have "r2 = dropWhile (\<lambda>c. c \<noteq> CHR ''/'') (tl r1)"
      unfolding r2_def by (cases r1) simp_all
    moreover have "length (dropWhile (\<lambda>c. c \<noteq> CHR ''/'') (tl r1)) \<le> length (tl r1)"
      by (rule length_dropWhile_le)
    ultimately have "length r2 \<le> length (tl r1)" by simp
    with r1 have l1: "length r2 < length r1" by (cases r1) simp_all
    have "length r1 \<le> length (rev (tl p))" unfolding r1_def by (rule length_dropWhile_le)
    with p have l2: "length r1 < length p" by (cases p) simp_all
    from r2 have l3: "length (tl r2) < length r2" by (cases r2) simp_all
    from r2 have "Suc 0 \<le> length r2" by (cases r2) simp_all
    with l1 l2 have l4: "3 \<le> length p" by linarith
    have "length (dirname p) < length p"
    proof (cases "hd p = CHR ''/'' \<and> tl r2 = []")
      case True
      with d p r2 have "dirname p = ''//''" by simp
      with l4 show ?thesis by simp
    next
      case False
      with d p r2 have "dirname p = hd p # rev (tl r2)" by auto
      with l1 l2 l3 show ?thesis by simp
    qed
    then show ?thesis by simp
  qed
qed

lemma dirname_dot: "dirname ''.'' = ''.''"
  by (simp add: dirname_def)

lemma dirname_root: "dirname ''/'' = ''/''"
  by (simp add: dirname_def)

lemma dirname_shorter:
  "dirname (dirname p) \<noteq> dirname p \<Longrightarrow> length (dirname p) < length p"
  using dirname_cases [of p] dirname_dot dirname_root by auto

text \<open>The path and the directories above it, up to the root (or the working directory).\<close>

function ancestry :: "path \<Rightarrow> path list" where
  "ancestry p = (if dirname p = p then [p] else p # ancestry (dirname p))"
  by pat_completeness auto
termination
  by (relation "measure (\<lambda>p. if dirname p = p then 0 else Suc (length p))")
     (auto intro: dirname_shorter)

declare ancestry.simps [simp del]

text \<open>
  \<^verbatim>\<open>fs.mkdir(dir, { recursive: true })\<close>: creates the directory and the missing ones
  above it; fails when a regular file is in the way.
\<close>

definition mkdir_p :: "state \<Rightarrow> path \<Rightarrow> string + state" where
  "mkdir_p s dir =
     (if list_ex (\<lambda>a. fs_files s a \<noteq> None) (ancestry dir) then Inl ''EEXIST''
      else Inr (s\<lparr>fs_dirs := fs_dirs s \<union> set (ancestry dir)\<rparr>))"

text \<open>
  \<^verbatim>\<open>fs.rename(src, dst)\<close> of a regular file: the destination's directory must exist and
  the destination must not be a directory; a regular file at the destination is replaced.
  Renaming a directory is outside the model (the catalogue holds regular files) and is
  reported as a failure.
\<close>

definition rename :: "state \<Rightarrow> path \<Rightarrow> path \<Rightarrow> string + state" where
  "rename s src dst =
     (case fs_files s src of
        None \<Rightarrow> Inl (if src \<in> fs_dirs s then ''ENOTSUP'' else ''ENOENT'')
      | Some c \<Rightarrow>
          if dirname dst \<notin> fs_dirs s then Inl ''ENOTDIR''
          else if dst \<in> fs_dirs s then Inl ''EISDIR''
          else Inr (s\<lparr>fs_files := (fs_files s)(src := None, dst \<mapsto> c)\<rparr>))"

text \<open>\<^verbatim>\<open>calculateHash(filePath)\<close> (hasher.js): the digest of the file's content.\<close>

definition calculateHash :: "runtime \<Rightarrow> state \<Rightarrow> path \<Rightarrow> string + string" where
  "calculateHash rt s p =
     (case fs_files s p of
        Some c \<Rightarrow> Inr (sha256 rt c)
      | None \<Rightarrow> Inl (if p \<in> fs_dirs s then ''EISDIR'' else ''ENOENT''))"

text \<open>
  \<^verbatim>\<open>cleanupEmptyDirectories(dirPath)\<close> (revert.js): \<^verbatim>\<open>readdir\<close> fails on a path that is
  no directory, \<^verbatim>\<open>rmdir\<close> fails on the root; every failure ends the cleanup silently.
\<close>

definition isEmptyDir :: "state \<Rightarrow> path \<Rightarrow> bool" where
  "isEmptyDir s d = (\<not> (\<exists>p \<in> dom (fs_files s) \<union> fs_dirs s. p \<noteq> d \<and> dirname p = d))"

function cleanupEmptyDirectories :: "path \<Rightarrow> state \<Rightarrow> state" where
  "cleanupEmptyDirectories dirPath s =
     (if dirPath \<in> fs_dirs s \<and> isEmptyDir s dirPath \<and> dirname dirPath \<noteq> dirPath
      then cleanupEmptyDirectories (dirname dirPath) (s\<lparr>fs_dirs := fs_dirs s - {dirPath}\<rparr>)
      else s)"
  by pat_completeness auto
termination
  by (relation "measure (\<lambda>(p, s). if dirname p = p then 0 else Suc (length p))")
     (auto intro: dirname_shorter)

declare cleanupEmptyDirectories.simps [simp del]

subsection \<open>Destination paths (dateResolver.js)\<close>

definition pad2 :: "nat \<Rightarrow> string" where
  "pad2 n = (if n < 10 then CHR ''0'' # string_of_nat n else string_of_nat n)"

text \<open>
  \<^verbatim>\<open>extractDateComponents(dateStr)\<close>; the column may be NULL, and \<^verbatim>\<open>new Date(null)\<close>
  is the epoch.
\<close>

definition extractDateComponents ::
  "runtime \<Rightarrow> int \<Rightarrow> string option \<Rightarrow> string \<times> string \<times> string" where
  "extractDateComponents rt now dateStr =
     (let d = (case dateStr of None \<Rightarrow> Some 0 | Some str \<Rightarrow> parseDate rt str);
          t = (if isValidDate now d then the d else now);
          (y, m, dd) = localDate rt t
      in (string_of_nat y, pad2 m, pad2 dd))"

definition generateDestinationPath ::
  "runtime \<Rightarrow> int \<Rightarrow> path \<Rightarrow> string option \<Rightarrow> string \<Rightarrow> path" where
  "generateDestinationPath rt now destinationBase dateStr filename' =
     (let (year, month, day) = extractDateComponents rt now dateStr
      in destinationBase @ ''/'' @ year @ ''/'' @ month @ ''/'' @ day @ ''/'' @ filename')"

subsection \<open>Organizer (organizer.js)\<close>

record progress =
  run_status :: string
  totalFiles :: nat
  processedFiles :: nat
  skippedFiles :: nat
  errorFiles :: nat

record organize_action =
  act_fileId :: nat
  act_source :: path
  act_destination :: path
  act_action :: string

record organize_status = progress +
  batchId :: nat
  destinationBase :: path
  dryRun :: bool
  movedFiles :: nat
  duplicateFiles :: nat
  actions :: "organize_action list"

text \<open>\<^verbatim>\<open>file.current_path || file.original_path\<close>\<close>

definition sourcePathOf :: "file_row \<Rightarrow> path" where
  "sourcePathOf file = (if truthy (current_path file) then the (current_path file)
                        else original_path file)"

text \<open>\<^verbatim>\<open>checkForExistingDuplicate(hash, excludeFileId)\<close> (duplicateDetector.js).\<close>

definition checkForExistingDuplicate :: "state \<Rightarrow> string option \<Rightarrow> nat \<Rightarrow> file_row option" where
  "checkForExistingDuplicate s hash excludeFileId =
     (case hash of
        None \<Rightarrow> None
      | Some h \<Rightarrow>
          List.find (\<lambda>r. hash_sha256 r = Some h \<and> status r = Moved
                         \<and> (excludeFileId = 0 \<or> file_id r \<noteq> excludeFileId))
            (files_table s))"

definition logOperation ::
  "nat \<Rightarrow> nat \<Rightarrow> op_type \<Rightarrow> path \<Rightarrow> path option \<Rightarrow> string option \<Rightarrow> string \<Rightarrow> state \<Rightarrow> state" where
  "logOperation batch fileId operationType sourcePath destPath hash reason' s =
     insertOperation batch (Some fileId) operationType sourcePath destPath hash reason' Completed s"

definition logError :: "nat option \<Rightarrow> path \<Rightarrow> string \<Rightarrow> string \<Rightarrow> state \<Rightarrow> state" where
  "logError fileId filePath errorType message s = insertError fileId filePath errorType message s"

text \<open>The \<^verbatim>\<open>catch\<close> block of \<^verbatim>\<open>organizeFile\<close>.\<close>

definition organizeFailed ::
  "file_row \<Rightarrow> nat \<Rightarrow> string \<Rightarrow> state \<times> organize_status \<Rightarrow> state \<times> organize_status" where
  "organizeFailed file batch message acc =
     (case acc of (s, st) \<Rightarrow>
        (logOperation batch (file_id file) ErrorOp (sourcePathOf file) None (hash_sha256 file) message
           (logError (Some (file_id file)) (sourcePathOf file) ''organize_error'' message s),
         st\<lparr>errorFiles := errorFiles st + 1\<rparr>))"

text \<open>
  \<^verbatim>\<open>organizeFile(file, destinationBase, batchId, dryRun)\<close>. The result is \<open>None\<close> when
  the collision loop does not return.
\<close>

definition organizeFile ::
  "runtime \<Rightarrow> file_row \<Rightarrow> path \<Rightarrow> nat \<Rightarrow> bool \<Rightarrow> state \<times> organize_status
     \<Rightarrow> (state \<times> organize_status) option" where
  "organizeFile rt file destBase batch dry acc =
     (case acc of (s, st) \<Rightarrow>
      let sourcePath = sourcePathOf file in
      if \<not> access s sourcePath then
        Some (logOperation batch (file_id file) SkipOp sourcePath None (hash_sha256 file)
                ''Source file not found'' s,
              st\<lparr>skippedFiles := skippedFiles st + 1\<rparr>)
      else
        (case checkForExistingDuplicate s (hash_sha256 file) (file_id file) of
           Some existingDuplicate \<Rightarrow>
             Some (logOperation batch (file_id file) DuplicateOp sourcePath
                     (current_path existingDuplicate) (hash_sha256 file)
                     (''Duplicate of file '' @ string_of_nat (file_id existingDuplicate))
                     (updateFile (file\<lparr>status := Duplicate,
                                       duplicate_of := Some (file_id existingDuplicate)\<rparr>) s),
                   st\<lparr>duplicateFiles := duplicateFiles st + 1\<rparr>)
         | None \<Rightarrow>
             (case handleCollision (access s)
                     (generateDestinationPath rt (clock s) destBase (resolved_date file) (filename file))
                     (hash_sha256 file) of
                None \<Rightarrow> None
              | Some destPath \<Rightarrow>
                  if dry then
                    Some (logOperation batch (file_id file) MoveOp sourcePath (Some destPath)
                            (hash_sha256 file) ''Dry run - would move'' s,
                          st\<lparr>movedFiles := movedFiles st + 1,
                             actions := actions st @
                               [\<lparr>act_fileId = file_id file, act_source = sourcePath,
                                 act_destination = destPath, act_action = ''would_move''\<rparr>]\<rparr>)
                  else
                    (case mkdir_p s (dirname destPath) of
                       Inl message \<Rightarrow> Some (organizeFailed file batch message (s, st))
                     | Inr s1 \<Rightarrow>
                         (case rename s1 sourcePath destPath of
                            Inl message \<Rightarrow> Some (organizeFailed file batch message (s1, st))
                          | Inr s2 \<Rightarrow>
                              Some (logOperation batch (file_id file) MoveOp sourcePath (Some destPath)
                                      (hash_sha256 file) ''File moved successfully''
                                      (updateFile (file\<lparr>current_path := Some destPath,
                                                        status := Moved,
                                                        duplicate_of := None\<rparr>) s2),
                                    st\<lparr>movedFiles := movedFiles st + 1,
                                       actions := actions st @
                                         [\<lparr>act_fileId = file_id file, act_source = sourcePath,
                                           act_destination = destPath, act_action = ''moved''\<rparr>]\<rparr>))))))"

text \<open>The loop of \<^verbatim>\<open>organizeFiles\<close> over the selected rows.\<close>

fun organizeEach ::
  "runtime \<Rightarrow> path \<Rightarrow> nat \<Rightarrow> bool \<Rightarrow> file_row list \<Rightarrow> state \<times> organize_status
     \<Rightarrow> (state \<times> organize_status) option" where
  "organizeEach rt destBase batch dry [] acc = Some acc"
| "organizeEach rt destBase batch dry (file # rest) acc =
     (case organizeFile rt file destBase batch dry acc of
        None \<Rightarrow> None
      | Some (s, st) \<Rightarrow>
          organizeEach rt destBase batch dry rest (s, st\<lparr>processedFiles := processedFiles st + 1\<rparr>))"

text \<open>The rows \<^verbatim>\<open>organizeFiles\<close> selects: the given ids that are pending, or all pending rows.\<close>

definition filesToOrganize :: "state \<Rightarrow> nat list option \<Rightarrow> file_row list" where
  "filesToOrganize s fileIds =
     (case fileIds of
        None \<Rightarrow> getFilesByStatus s Pending
      | Some ids \<Rightarrow>
          if ids \<noteq> []
          then filter (\<lambda>r. file_id r \<in> set ids \<and> status r = Pending) (files_table s)
          else getFilesByStatus s Pending)"

text \<open>\<^verbatim>\<open>organizeFiles(destinationBase, dryRun, fileIds)\<close>; the batch id is a fresh UUID.\<close>

definition organizeFiles ::
  "runtime \<Rightarrow> path \<Rightarrow> bool \<Rightarrow> nat list option \<Rightarrow> state \<Rightarrow> (state \<times> organize_status) option" where
  "organizeFiles rt destBase dry fileIds s =
     (let batch = next_uuid s;
          s0 = s\<lparr>next_uuid := next_uuid s + 1\<rparr>;
          selected = filesToOrganize s0 fileIds;
          st0 = \<lparr>run_status = ''in_progress'', totalFiles = length selected, processedFiles = 0,
                 skippedFiles = 0, errorFiles = 0, batchId = batch, destinationBase = destBase,
                 dryRun = dry, movedFiles = 0, duplicateFiles = 0, actions = []\<rparr>
      in case organizeEach rt destBase batch dry selected (s0, st0) of
           None \<Rightarrow> None
         | Some (s', st) \<Rightarrow> Some (s', st\<lparr>run_status := ''completed''\<rparr>))"

subsection \<open>Revert engine (revert.js)\<close>

record revert_result =
  operationId :: nat
  fileId :: nat
  originalPath :: path
  revertedFrom :: path

text \<open>
  \<^verbatim>\<open>revertOperation(operation)\<close>: the outcome (the message of the thrown error, or the
  result) and the state left behind.
\<close>

definition revertOperation ::
  "runtime \<Rightarrow> operation_row \<Rightarrow> state \<Rightarrow> (string + revert_result) \<times> state" where
  "revertOperation rt operation s =
     (if operation_type operation \<noteq> MoveOp then
        (Inl ''Only move operations can be reverted'', s)
      else if op_status operation = Reverted then
        (Inl ''Operation already reverted'', s)
      else
        (case getFileById s (op_file_id operation) of
           None \<Rightarrow> (Inl ''Associated file not found'', s)
         | Some file \<Rightarrow>
             if \<not> accessOpt s (destination_path operation) then
               (Inl ''File no longer exists at destination path'', s)
             else
               (let currentPath = the (destination_path operation);
                    originalPath' = source_path operation
                in case (if truthy (hash_used operation)
                         then (case calculateHash rt s currentPath of
                                 Inl message \<Rightarrow> Some message
                               | Inr currentHash \<Rightarrow>
                                   if currentHash \<noteq> the (hash_used operation)
                                   then Some ''File has been modified since it was moved''
                                   else None)
                         else None) of
                     Some message \<Rightarrow> (Inl message, s)
                   | None \<Rightarrow>
                       (case (if access s (dirname originalPath') then Inr s
                              else mkdir_p s (dirname originalPath')) of
                          Inl message \<Rightarrow> (Inl message, s)
                        | Inr s1 \<Rightarrow>
                            if access s1 originalPath' then
                              (Inl ''A file already exists at the original location'', s1)
                            else
                              (case rename s1 currentPath originalPath' of
                                 Inl message \<Rightarrow> (Inl message, s1)
                               | Inr s2 \<Rightarrow>
                                   (let s3 = updateFile (file\<lparr>current_path := Some originalPath',
                                                              status := Pending,
                                                              duplicate_of := None\<rparr>) s2;
                                        s4 = updateOperationStatus Reverted (op_id operation) s3;
                                        s5 = insertOperation (next_uuid s4) (Some (file_id file)) RevertOp
                                               currentPath (Some originalPath') (hash_used operation)
                                               (''Reverted operation '' @ string_of_nat (op_id operation))
                                               Completed
                                               (s4\<lparr>next_uuid := next_uuid s4 + 1\<rparr>);
                                        s6 = cleanupEmptyDirectories (dirname currentPath) s5
                                    in (Inr \<lparr>operationId = op_id operation, fileId = file_id file,
                                             originalPath = originalPath',
                                             revertedFrom = currentPath\<rparr>, s6)))))))"

record batch_results =
  res_batchId :: nat
  totalOperations :: nat
  reverted :: nat
  failed :: nat
  skipped :: nat
  errors :: "(nat \<times> string) list"




subsection \<open>Revert of a single operation: results\<close>

lemma mkdir_p_files: "mkdir_p s d = Inr s' \<Longrightarrow>
  fs_files s' = fs_files s \<and> files_table s' = files_table s \<and> operations_table s' = operations_table s"
  by (auto simp: mkdir_p_def split: if_splits)

lemma revertOperation_failure_frame:
  assumes "revertOperation rt operation s = (Inl e, s')"
  shows "fs_files s' = fs_files s \<and> files_table s' = files_table s
         \<and> operations_table s' = operations_table s"
proof -
  have "s' = s \<or> (mkdir_p s (dirname (source_path operation)) = Inr s')"
    using assms unfolding revertOperation_def Let_def
    by (auto split: if_splits option.splits sum.splits)
  then show ?thesis using mkdir_p_files by blast
qed


definition example_move :: operation_row where
  "example_move =
     \<lparr>op_id = 1, batch_id = 1, op_file_id = Some 1, operation_type = MoveOp,
      source_path = ''/s/a.txt'', destination_path = Some ''/d/2023/07/15/a.txt'',
      hash_used = Some ''sha256:hello'', reason = ''File moved successfully'',
      op_status = Completed, op_created_at = 1700000000\<rparr>"

text \<open>The state after \<^verbatim>\<open>/s/a.txt\<close> (content \<^verbatim>\<open>hello\<close>) was moved by batch 1.\<close>

definition moved_state :: state where
  "moved_state =
     empty_state\<lparr>fs_files := [''/d/2023/07/15/a.txt'' \<mapsto> ''hello''],
       fs_dirs := {''/'', ''/s'', ''/d'', ''/d/2023'', ''/d/2023/07'', ''/d/2023/07/15''},
       files_table := [(example_row 1 ''/s/a.txt'' ''a.txt'' ''sha256:hello'' Moved 1)
                          \<lparr>current_path := Some ''/d/2023/07/15/a.txt''\<rparr>],
       operations_table := [example_move],
       next_file_id := 2, next_op_id := 2, next_uuid := 2\<rparr>"

text \<open>
  C2: \<^verbatim>\<open>revertOperation\<close> fails with a distinct message for each violated precondition,
  checked in this order: the entry is not a move; it is already reverted; nothing is at
  the ledger's destination path; the live file's hash differs from the recorded
  fingerprint; something occupies the original path. Whenever it fails, with these or
  with any other error, no file has been moved and the catalogue row and the ledger are
  as before.
\<close>

theorem revertOperation_preconditions:
  "(operation_type operation \<noteq> MoveOp \<longrightarrow>
      revertOperation rt operation s = (Inl ''Only move operations can be reverted'', s))
   \<and> (operation_type operation = MoveOp \<and> op_status operation = Reverted \<longrightarrow>
      revertOperation rt operation s = (Inl ''Operation already reverted'', s))
   \<and> (operation_type operation = MoveOp \<and> op_status operation \<noteq> Reverted
        \<and> getFileById s (op_file_id operation) \<noteq> None
        \<and> \<not> accessOpt s (destination_path operation) \<longrightarrow>
      revertOperation rt operation s = (Inl ''File no longer exists at destination path'', s))
   \<and> (operation_type operation = MoveOp \<and> op_status operation \<noteq> Reverted
        \<and> getFileById s (op_file_id operation) \<noteq> None
        \<and> destination_path operation = Some d \<and> fs_files s d = Some c
        \<and> truthy (hash_used operation) \<and> sha256 rt c \<noteq> the (hash_used operation) \<longrightarrow>
      revertOperation rt operation s = (Inl ''File has been modified since it was moved'', s))
   \<and> (operation_type operation = MoveOp \<and> op_status operation \<noteq> Reverted
        \<and> getFileById s (op_file_id operation) \<noteq> None
        \<and> destination_path operation = Some d \<and> fs_files s d = Some c
        \<and> (truthy (hash_used operation) \<longrightarrow> sha256 rt c = the (hash_used operation))
        \<and> access s (dirname (source_path operation)) \<and> access s (source_path operation) \<longrightarrow>
      revertOperation rt operation s = (Inl ''A file already exists at the original location'', s))
   \<and> distinct [''Only move operations can be reverted'', ''Operation already reverted'',
        ''File no longer exists at destination path'',
        ''File has been modified since it was moved'',
        ''A file already exists at the original location'']
   \<and> (\<forall>e s'. revertOperation rt operation s = (Inl e, s') \<longrightarrow>
        fs_files s' = fs_files s \<and> files_table s' = files_table s
        \<and> operations_table s' = operations_table s)"
proof -
  have c1: "operation_type operation \<noteq> MoveOp \<longrightarrow>
      revertOperation rt operation s = (Inl ''Only move operations can be reverted'', s)"
    by (simp add: revertOperation_def)
  have c2: "operation_type operation = MoveOp \<and> op_status operation = Reverted \<longrightarrow>
      revertOperation rt operation s = (Inl ''Operation already reverted'', s)"
    by (simp add: revertOperation_def)
  have c3: "operation_type operation = MoveOp \<and> op_status operation \<noteq> Reverted
        \<and> getFileById s (op_file_id operation) \<noteq> None
        \<and> \<not> accessOpt s (destination_path operation) \<longrightarrow>
      revertOperation rt operation s = (Inl ''File no longer exists at destination path'', s)"
    by (auto simp: revertOperation_def)
  have c4: "operation_type operation = MoveOp \<and> op_status operation \<noteq> Reverted
        \<and> getFileById s (op_file_id operation) \<noteq> None
        \<and> destination_path operation = Some d \<and> fs_files s d = Some c
        \<and> truthy (hash_used operation) \<and> sha256 rt c \<noteq> the (hash_used operation) \<longrightarrow>
      revertOperation rt operation s = (Inl ''File has been modified since it was moved'', s)"
    by (auto simp: revertOperation_def accessOpt_def access_def calculateHash_def Let_def)
  have c5: "operation_type operation = MoveOp \<and> op_status operation \<noteq> Reverted
        \<and> getFileById s (op_file_id operation) \<noteq> None
        \<and> destination_path operation = Some d \<and> fs_files s d = Some c
        \<and> (truthy (hash_used operation) \<longrightarrow> sha256 rt c = the (hash_used operation))
        \<and> access s (dirname (source_path operation)) \<and> access s (source_path operation) \<longrightarrow>
      revertOperation rt operation s = (Inl ''A file already exists at the original location'', s)"
    by (auto simp: revertOperation_def accessOpt_def calculateHash_def Let_def)
       (auto simp: access_def)
  have c6: "distinct [''Only move operations can be reverted'', ''Operation already reverted'',
        ''File no longer exists at destination path'',
        ''File has been modified since it was moved'',
        ''A file already exists at the original location'']"
    by simp
  have c7: "\<forall>e s'. revertOperation rt operation s = (Inl e, s') \<longrightarrow>
        fs_files s' = fs_files s \<and> files_table s' = files_table s
        \<and> operations_table s' = operations_table s"
    using revertOperation_failure_frame by blast
  from c1 c2 c3 c4 c5 c6 c7 show ?thesis by blast
qed

theorem revertOperation_preconditions_witness:
  "revertOperation test_runtime (example_move\<lparr>operation_type := SkipOp\<rparr>) moved_state
     = (Inl ''Only move operations can be reverted'', moved_state)
   \<and> revertOperation test_runtime (example_move\<lparr>op_status := Reverted\<rparr>) moved_state
     = (Inl ''Operation already reverted'', moved_state)
   \<and> revertOperation test_runtime example_move (moved_state\<lparr>fs_files := Map.empty\<rparr>)
     = (Inl ''File no longer exists at destination path'', moved_state\<lparr>fs_files := Map.empty\<rparr>)
   \<and> revertOperation test_runtime example_move
        (moved_state\<lparr>fs_files := [''/d/2023/07/15/a.txt'' \<mapsto> ''HELLO'']\<rparr>)
     = (Inl ''File has been modified since it was moved'',
        moved_state\<lparr>fs_files := [''/d/2023/07/15/a.txt'' \<mapsto> ''HELLO'']\<rparr>)
   \<and> revertOperation test_runtime example_move
        (moved_state\<lparr>fs_files := [''/d/2023/07/15/a.txt'' \<mapsto> ''hello'', ''/s/a.txt'' \<mapsto> ''other'']\<rparr>)
     = (Inl ''A file already exists at the original location'',
        moved_state\<lparr>fs_files := [''/d/2023/07/15/a.txt'' \<mapsto> ''hello'', ''/s/a.txt'' \<mapsto> ''other'']\<rparr>)"
proof -
  have found: "\<And>f. getFileById (moved_state\<lparr>fs_files := f\<rparr>) (op_file_id example_move) \<noteq> None"
    by (simp add: getFileById_def moved_state_def empty_state_def example_move_def example_row_def)
  have found': "getFileById moved_state (op_file_id example_move) \<noteq> None"
    by (simp add: getFileById_def moved_state_def empty_state_def example_move_def example_row_def)
  have w1: "revertOperation test_runtime (example_move\<lparr>operation_type := SkipOp\<rparr>) moved_state
     = (Inl ''Only move operations can be reverted'', moved_state)"
    using revertOperation_preconditions
      [of "example_move\<lparr>operation_type := SkipOp\<rparr>" test_runtime moved_state]
    by (simp add: example_move_def)
  have w2: "revertOperation test_runtime (example_move\<lparr>op_status := Reverted\<rparr>) moved_state
     = (Inl ''Operation already reverted'', moved_state)"
    using revertOperation_preconditions
      [of "example_move\<lparr>op_status := Reverted\<rparr>" test_runtime moved_state]
    by (simp add: example_move_def)
  have w3: "revertOperation test_runtime example_move (moved_state\<lparr>fs_files := Map.empty\<rparr>)
     = (Inl ''File no longer exists at destination path'', moved_state\<lparr>fs_files := Map.empty\<rparr>)"
    using revertOperation_preconditions
      [of example_move test_runtime "moved_state\<lparr>fs_files := Map.empty\<rparr>"] found
    by (simp add: example_move_def accessOpt_def access_def moved_state_def empty_state_def)
  have w4: "revertOperation test_runtime example_move
        (moved_state\<lparr>fs_files := [''/d/2023/07/15/a.txt'' \<mapsto> ''HELLO'']\<rparr>)
     = (Inl ''File has been modified since it was moved'',
        moved_state\<lparr>fs_files := [''/d/2023/07/15/a.txt'' \<mapsto> ''HELLO'']\<rparr>)"
    using revertOperation_preconditions
      [of example_move test_runtime "moved_state\<lparr>fs_files := [''/d/2023/07/15/a.txt'' \<mapsto> ''HELLO'']\<rparr>"
          "''/d/2023/07/15/a.txt''" "''HELLO''"] found
    by (simp add: example_move_def truthy_def test_runtime_def)
  have w5: "revertOperation test_runtime example_move
        (moved_state\<lparr>fs_files := [''/d/2023/07/15/a.txt'' \<mapsto> ''hello'', ''/s/a.txt'' \<mapsto> ''other'']\<rparr>)
     = (Inl ''A file already exists at the original location'',
        moved_state\<lparr>fs_files := [''/d/2023/07/15/a.txt'' \<mapsto> ''hello'', ''/s/a.txt'' \<mapsto> ''other'']\<rparr>)"
    using revertOperation_preconditions
      [of example_move test_runtime
          "moved_state\<lparr>fs_files := [''/d/2023/07/15/a.txt'' \<mapsto> ''hello'', ''/s/a.txt'' \<mapsto> ''other'']\<rparr>"
          "''/d/2023/07/15/a.txt''" "''hello''"] found
    by (simp add: example_move_def truthy_def test_runtime_def access_def dirname_def
        moved_state_def empty_state_def)
  from w1 w2 w3 w4 w5 show ?thesis by blast
qed

subsection \<open>Batch revert: results\<close>


definition markReverted :: "nat set \<Rightarrow> operation_row \<Rightarrow> operation_row" where
  "markReverted I r = (if op_id r \<in> I then r\<lparr>op_status := Reverted\<rparr> else r)"

lemma markReverted_fields [simp]:
  "op_id (markReverted I r) = op_id r"
  "batch_id (markReverted I r) = batch_id r"
  "operation_type (markReverted I r) = operation_type r"
  "op_status (markReverted I r) = (if op_id r \<in> I then Reverted else op_status r)"
  by (simp_all add: markReverted_def)



lemma updateFile_frame [simp]:
  "fs_files (updateFile p s) = fs_files s"
  "fs_dirs (updateFile p s) = fs_dirs s"
  "operations_table (updateFile p s) = operations_table s"
  "errors_table (updateFile p s) = errors_table s"
  "next_file_id (updateFile p s) = next_file_id s"
  "next_op_id (updateFile p s) = next_op_id s"
  "next_error_id (updateFile p s) = next_error_id s"
  "next_uuid (updateFile p s) = next_uuid s"
  "clock (updateFile p s) = clock s"
  by (simp_all add: updateFile_def)

lemma insertOperation_frame [simp]:
  "fs_files (insertOperation b f t src dst h rsn st s) = fs_files s"
  "fs_dirs (insertOperation b f t src dst h rsn st s) = fs_dirs s"
  "files_table (insertOperation b f t src dst h rsn st s) = files_table s"
  "errors_table (insertOperation b f t src dst h rsn st s) = errors_table s"
  "next_file_id (insertOperation b f t src dst h rsn st s) = next_file_id s"
  "next_op_id (insertOperation b f t src dst h rsn st s) = next_op_id s + 1"
  "next_error_id (insertOperation b f t src dst h rsn st s) = next_error_id s"
  "next_uuid (insertOperation b f t src dst h rsn st s) = next_uuid s"
  "clock (insertOperation b f t src dst h rsn st s) = clock s"
  by (simp_all add: insertOperation_def)


lemma updateOperationStatus_frame [simp]:
  "fs_files (updateOperationStatus st i s) = fs_files s"
  "fs_dirs (updateOperationStatus st i s) = fs_dirs s"
  "files_table (updateOperationStatus st i s) = files_table s"
  "errors_table (updateOperationStatus st i s) = errors_table s"
  "next_file_id (updateOperationStatus st i s) = next_file_id s"
  "next_op_id (updateOperationStatus st i s) = next_op_id s"
  "next_error_id (updateOperationStatus st i s) = next_error_id s"
  "next_uuid (updateOperationStatus st i s) = next_uuid s"
  "clock (updateOperationStatus st i s) = clock s"
  by (simp_all add: updateOperationStatus_def)


lemma insertError_frame [simp]:
  "fs_files (insertError f p t m s) = fs_files s"
  "fs_dirs (insertError f p t m s) = fs_dirs s"
  "files_table (insertError f p t m s) = files_table s"
  "operations_table (insertError f p t m s) = operations_table s"
  "next_file_id (insertError f p t m s) = next_file_id s"
  "next_op_id (insertError f p t m s) = next_op_id s"
  "next_uuid (insertError f p t m s) = next_uuid s"
  "clock (insertError f p t m s) = clock s"
  by (simp_all add: insertError_def)




















subsection \<open>Organizer: results\<close>

lemma logOperation_frame [simp]:
  "fs_files (logOperation b f t src dst h rsn s) = fs_files s"
  "fs_dirs (logOperation b f t src dst h rsn s) = fs_dirs s"
  "files_table (logOperation b f t src dst h rsn s) = files_table s"
  "errors_table (logOperation b f t src dst h rsn s) = errors_table s"
  "next_file_id (logOperation b f t src dst h rsn s) = next_file_id s"
  "next_op_id (logOperation b f t src dst h rsn s) = next_op_id s + 1"
  "next_uuid (logOperation b f t src dst h rsn s) = next_uuid s"
  "clock (logOperation b f t src dst h rsn s) = clock s"
  by (simp_all add: logOperation_def)


lemma logError_frame [simp]:
  "fs_files (logError f p t m s) = fs_files s"
  "fs_dirs (logError f p t m s) = fs_dirs s"
  "files_table (logError f p t m s) = files_table s"
  "operations_table (logError f p t m s) = operations_table s"
  "next_file_id (logError f p t m s) = next_file_id s"
  "next_op_id (logError f p t m s) = next_op_id s"
  "next_uuid (logError f p t m s) = next_uuid s"
  "clock (logError f p t m s) = clock s"
  by (simp_all add: logError_def)

lemma current_timestamp_cong:
  "clock s' = clock s \<Longrightarrow> current_timestamp s' = current_timestamp s"
  by (simp add: current_timestamp_def)





























text \<open>Two pending files with the same name and date, in different source directories.\<close>

definition same_name_state :: state where
  "same_name_state =
     empty_state\<lparr>fs_files := [''/s/a.txt'' \<mapsto> ''one'', ''/t/a.txt'' \<mapsto> ''two''],
       fs_dirs := {''/'', ''/s'', ''/t'', ''/d''},
       files_table := [example_row 1 ''/s/a.txt'' ''a.txt'' ''sha256:one'' Pending 1,
                       example_row 2 ''/t/a.txt'' ''a.txt'' ''sha256:two'' Pending 2],
       next_file_id := 3\<rparr>"


lemma example_destination:
  "generateDestinationPath test_runtime 1700000000000 ''/d'' (Some ''2023-07-15T10:30:00.000Z'') ''a.txt''
     = ''/d/2023/07/15/a.txt''"
  by (simp add: generateDestinationPath_def extractDateComponents_def test_runtime_def
      isValidDate_def day_ms_def pad2_def string_of_nat.simps digit_char_def)




lemma same_name_dry:
  "map_option (\<lambda>r. map act_destination (actions (snd r)))
     (organizeFiles test_runtime ''/d'' True None same_name_state)
   = Some [''/d/2023/07/15/a.txt'', ''/d/2023/07/15/a.txt'']"
  unfolding organizeFiles_def Let_def
  by (simp add: filesToOrganize_def getFilesByStatus_def same_name_state_def empty_state_def
      example_row_def organizeFile_def sourcePathOf_def truthy_def access_def
      checkForExistingDuplicate_def example_destination handleCollision_def
      collisionLoop.simps logOperation_def insertOperation_def Let_def)

















subsection \<open>Scanner (scanner.js, metadata.js)\<close>

text \<open>
  The object \<^verbatim>\<open>extractAllMetadata\<close> returns (the three date candidates, and what the scanner
  stores beside them; \<open>meta_exif\<close> is the rendering of the \<^verbatim>\<open>exif\<close> object), and the pair
  \<^verbatim>\<open>calculateHashes\<close> returns.
\<close>

record metadata = date_candidates +
  meta_filename :: string
  meta_extension :: string
  meta_category :: string
  meta_mimeType :: string
  meta_size :: nat
  meta_exif :: string

record hashes =
  full :: string
  partial :: string

text \<open>
  What the filesystem answers during one scan. A directory entry is a regular file, a
  directory, or something else (a link, a socket). A file carries what
  \<^verbatim>\<open>extractAllMetadata\<close> and \<^verbatim>\<open>calculateHashes\<close> yield for it: the message of the exception
  when one of them throws, or their two results. A directory carries what
  \<^verbatim>\<open>fs.readdir(dir, {withFileTypes: true})\<close> yields: the message of the exception, or the
  entries. The scanned root is given by its listing alone.
\<close>

datatype dirent =
    FileEnt string "string + metadata \<times> hashes"
  | DirEnt string "string + dirent list"
  | OtherEnt string

type_synonym listing = "string + dirent list"

definition skipFiles :: "string list" where
  "skipFiles = [''.DS_Store'', ''Thumbs.db'', ''desktop.ini'', ''.gitkeep'', ''.gitignore'']"

definition skipDirectories :: "string list" where
  "skipDirectories = [''node_modules'', ''.git'', ''__pycache__'', ''.cache'', ''.Trash'']"

definition batchSize :: nat where
  "batchSize = 100"

definition shouldSkipFile :: "string \<Rightarrow> bool" where
  "shouldSkipFile filename' = (take 1 filename' = ''.'' \<or> filename' \<in> set skipFiles)"

definition shouldSkipDirectory :: "string \<Rightarrow> bool" where
  "shouldSkipDirectory dirname' = (take 1 dirname' = ''.'' \<or> dirname' \<in> set skipDirectories)"

text \<open>The weight of a listing: the number of entries below it.\<close>

fun weight :: "dirent \<Rightarrow> nat" where
  "weight (DirEnt name (Inr entries)) = Suc (sum_list (map weight entries))"
| "weight (DirEnt name (Inl message)) = 1"
| "weight (FileEnt name outcome) = 1"
| "weight (OtherEnt name) = 1"

definition listing_weight :: "listing \<Rightarrow> nat" where
  "listing_weight l = (case l of Inl message \<Rightarrow> 0 | Inr entries \<Rightarrow> sum_list (map weight entries))"

lemma weight_member: "e \<in> set entries \<Longrightarrow> weight e \<le> sum_list (map weight entries)"
  by (induction entries) auto

lemma listing_weight_member:
  "DirEnt name sub \<in> set entries \<Longrightarrow> listing_weight sub < listing_weight (Inr entries)"
  using weight_member [of "DirEnt name sub" entries]
  by (cases sub) (auto simp add: listing_weight_def)

text \<open>\<^verbatim>\<open>countFiles(dirPath, recursive)\<close>; the \<^verbatim>\<open>catch\<close> block returns the count reached.\<close>

function countFiles :: "path \<Rightarrow> bool \<Rightarrow> listing \<Rightarrow> nat" where
  "countFiles dirPath recursive (Inl message) = 0"
| "countFiles dirPath recursive (Inr entries) =
     fold (\<lambda>entry count.
             case entry of
               FileEnt name outcome \<Rightarrow> if \<not> shouldSkipFile name then count + 1 else count
             | DirEnt name sub \<Rightarrow>
                 if recursive \<and> \<not> shouldSkipDirectory name
                 then count + countFiles (join dirPath name) recursive sub
                 else count
             | OtherEnt name \<Rightarrow> count)
          entries 0"
  by pat_completeness auto
termination
  by (relation "measure (\<lambda>(dirPath, recursive, l). listing_weight l)")
     (auto intro: listing_weight_member)


text \<open>
  The status object of a scan (\<^verbatim>\<open>currentScanStatus\<close>); \<open>run_status\<close> is its \<^verbatim>\<open>status\<close>.
\<close>

record scan_status = progress +
  sessionId :: "nat option"
  sourcePath :: path
  newFiles :: nat

text \<open>
  \<^verbatim>\<open>fileQueries.insertFile().run(fileData)\<close>, the parameters given as a row. The table
  declares \<^verbatim>\<open>original_path TEXT NOT NULL UNIQUE\<close>: inserting a path already there throws.
  The identifier is the AUTOINCREMENT counter, \<^verbatim>\<open>duplicate_of\<close> is NULL and the two
  timestamps default to \<^verbatim>\<open>CURRENT_TIMESTAMP\<close>.
\<close>

definition insertFile :: "file_row \<Rightarrow> state \<Rightarrow> string + state" where
  "insertFile fileData s =
     (if getFileByPath s (original_path fileData) \<noteq> None
      then Inl ''UNIQUE constraint failed: files.original_path''
      else Inr (s\<lparr>files_table := files_table s @
                     [fileData\<lparr>file_id := next_file_id s, duplicate_of := None,
                               created_timestamp := current_timestamp s,
                               updated_timestamp := current_timestamp s\<rparr>],
                  next_file_id := next_file_id s + 1\<rparr>))"

text \<open>
  \<^verbatim>\<open>JSON.stringify({category: ..., exif: ...})\<close>, \<open>exif\<close> being the rendering of the
  \<^verbatim>\<open>exif\<close> object (the category is one of \<^verbatim>\<open>image\<close>, \<^verbatim>\<open>video\<close>, \<^verbatim>\<open>document\<close>,
  \<^verbatim>\<open>other\<close>, so nothing in it is escaped).
\<close>

definition stringify :: "string \<Rightarrow> string \<Rightarrow> string" where
  "stringify category exif =
     ''{'' @ [CHR 0x22] @ ''category'' @ [CHR 0x22] @ '':'' @ [CHR 0x22] @ category @ [CHR 0x22]
       @ '','' @ [CHR 0x22] @ ''exif'' @ [CHR 0x22] @ '':'' @ exif @ ''}''"

text \<open>The \<^verbatim>\<open>catch\<close> block of \<^verbatim>\<open>processFile\<close>.\<close>

definition processFailed ::
  "path \<Rightarrow> string \<Rightarrow> state \<times> scan_status \<Rightarrow> state \<times> scan_status" where
  "processFailed filePath message acc =
     (case acc of (s, st) \<Rightarrow>
        (logError None filePath ''file_processing'' message s,
         st\<lparr>processedFiles := processedFiles st + 1, errorFiles := errorFiles st + 1\<rparr>))"

text \<open>
  \<^verbatim>\<open>processFile(filePath, db)\<close>; \<open>outcome\<close> is what extraction and hashing yield for the
  file. The date is resolved at the instant of the clock.
\<close>

definition processFile ::
  "runtime \<Rightarrow> path \<Rightarrow> string + metadata \<times> hashes \<Rightarrow> state \<times> scan_status
     \<Rightarrow> state \<times> scan_status" where
  "processFile rt filePath outcome acc =
     (case acc of (s, st) \<Rightarrow>
        (case getFileByPath s filePath of
           Some existingFile \<Rightarrow>
             (s, st\<lparr>processedFiles := processedFiles st + 1,
                   skippedFiles := skippedFiles st + 1\<rparr>)
         | None \<Rightarrow>
             (case outcome of
                Inl message \<Rightarrow> processFailed filePath message acc
              | Inr (metadata, hashes) \<Rightarrow>
                  (let resolved = resolveDate rt (clock s) (date_candidates.truncate metadata);
                       fileData =
                         \<lparr>file_id = 0,
                          original_path = filePath,
                          current_path = Some filePath,
                          filename = meta_filename metadata,
                          extension = Some (meta_extension metadata),
                          size_bytes = meta_size metadata,
                          hash_sha256 = Some (full hashes),
                          hash_partial = Some (partial hashes),
                          mime_type = Some (meta_mimeType metadata),
                          created_at = createdAt metadata,
                          modified_at = modifiedAt metadata,
                          exif_date = exifDate metadata,
                          resolved_date = Some (toISOString rt (date resolved)),
                          date_source = Some (source resolved),
                          status = Pending,
                          duplicate_of = None,
                          metadata_json =
                            Some (stringify (meta_category metadata) (meta_exif metadata)),
                          created_timestamp = 0,
                          updated_timestamp = 0\<rparr>
                   in case insertFile fileData s of
                        Inl message \<Rightarrow> processFailed filePath message acc
                      | Inr s' \<Rightarrow>
                          (s', st\<lparr>processedFiles := processedFiles st + 1,
                                  newFiles := newFiles st + 1\<rparr>)))))"

text \<open>\<^verbatim>\<open>processBatch(filePaths, db)\<close>, each path with the outcome of its extraction.\<close>

definition processBatch ::
  "runtime \<Rightarrow> (path \<times> (string + metadata \<times> hashes)) list \<Rightarrow> state \<times> scan_status
     \<Rightarrow> state \<times> scan_status" where
  "processBatch rt filePaths acc =
     fold (\<lambda>filePath. processFile rt (fst filePath) (snd filePath)) filePaths acc"

text \<open>
  The loop \<^verbatim>\<open>for (let i = 0; i < files.length; i += config.batchSize)\<close> of
  \<^verbatim>\<open>processDirectory\<close>, from the index \<open>i\<close>.
\<close>

function processBatches ::
  "runtime \<Rightarrow> (path \<times> (string + metadata \<times> hashes)) list \<Rightarrow> nat \<Rightarrow> state \<times> scan_status
     \<Rightarrow> state \<times> scan_status" where
  "processBatches rt files i acc =
     (if i < length files
      then processBatches rt files (i + batchSize)
             (processBatch rt (take batchSize (drop i files)) acc)
      else acc)"
  by pat_completeness auto
termination
  by (relation "measure (\<lambda>(rt, files, i, acc). length files - i)")
     (auto simp add: batchSize_def)

declare processBatches.simps [simp del]

text \<open>
  The first loop of \<^verbatim>\<open>processDirectory\<close> separates the entries: the paths of the files to
  process, the paths of the directories to descend into, and the number of files skipped
  by name.
\<close>

fun filesOf :: "path \<Rightarrow> dirent list \<Rightarrow> (path \<times> (string + metadata \<times> hashes)) list" where
  "filesOf dirPath [] = []"
| "filesOf dirPath (FileEnt name outcome # entries) =
     (if \<not> shouldSkipFile name then (join dirPath name, outcome) # filesOf dirPath entries
      else filesOf dirPath entries)"
| "filesOf dirPath (DirEnt name sub # entries) = filesOf dirPath entries"
| "filesOf dirPath (OtherEnt name # entries) = filesOf dirPath entries"

fun skippedOf :: "dirent list \<Rightarrow> nat" where
  "skippedOf [] = 0"
| "skippedOf (FileEnt name outcome # entries) =
     (if \<not> shouldSkipFile name then skippedOf entries else skippedOf entries + 1)"
| "skippedOf (DirEnt name sub # entries) = skippedOf entries"
| "skippedOf (OtherEnt name # entries) = skippedOf entries"

fun subdirsOf :: "path \<Rightarrow> bool \<Rightarrow> dirent list \<Rightarrow> (path \<times> listing) list" where
  "subdirsOf dirPath recursive [] = []"
| "subdirsOf dirPath recursive (FileEnt name outcome # entries) = subdirsOf dirPath recursive entries"
| "subdirsOf dirPath recursive (DirEnt name sub # entries) =
     (if recursive \<and> \<not> shouldSkipDirectory name
      then (join dirPath name, sub) # subdirsOf dirPath recursive entries
      else subdirsOf dirPath recursive entries)"
| "subdirsOf dirPath recursive (OtherEnt name # entries) = subdirsOf dirPath recursive entries"

lemma subdirsOf_member:
  "(p, sub) \<in> set (subdirsOf dirPath recursive entries) \<Longrightarrow> \<exists>name. DirEnt name sub \<in> set entries"
  by (induction dirPath recursive entries rule: subdirsOf.induct) (auto split: if_splits)

text \<open>
  \<^verbatim>\<open>processDirectory(dirPath, recursive, sessionId)\<close>. Nothing but \<^verbatim>\<open>readdir\<close> throws inside
  its \<^verbatim>\<open>try\<close> block (\<^verbatim>\<open>processFile\<close> and the recursive calls catch their own exceptions),
  so the \<^verbatim>\<open>catch\<close> block runs exactly when the directory cannot be listed.
\<close>

function processDirectory ::
  "runtime \<Rightarrow> path \<Rightarrow> bool \<Rightarrow> listing \<Rightarrow> state \<times> scan_status \<Rightarrow> state \<times> scan_status" where
  "processDirectory rt dirPath recursive (Inl message) acc =
     (case acc of (s, st) \<Rightarrow> (logError None dirPath ''directory_access'' message s, st))"
| "processDirectory rt dirPath recursive (Inr entries) acc =
     fold (\<lambda>subdir. processDirectory rt (fst subdir) recursive (snd subdir))
          (subdirsOf dirPath recursive entries)
          (processBatches rt (filesOf dirPath entries) 0
             (case acc of (s, st) \<Rightarrow>
                (s, st\<lparr>skippedFiles := skippedFiles st + skippedOf entries\<rparr>)))"
  by pat_completeness auto
termination
proof (relation "measure (\<lambda>(rt, dirPath, recursive, l, acc). listing_weight l)")
  show "wf (measure (\<lambda>(rt, dirPath, recursive, l, acc). listing_weight l))"
    by simp
next
  fix rt :: runtime and dirPath :: path and recursive :: bool and entries :: "dirent list"
    and acc :: "state \<times> scan_status" and subdir :: "path \<times> listing" and acc' :: "state \<times> scan_status"
  assume "subdir \<in> set (subdirsOf dirPath recursive entries)"
  then obtain name where "DirEnt name (snd subdir) \<in> set entries"
    using subdirsOf_member [of "fst subdir" "snd subdir" dirPath recursive entries] by auto
  then show "((rt, fst subdir, recursive, snd subdir, acc'), (rt, dirPath, recursive, Inr entries, acc))
               \<in> measure (\<lambda>(rt, dirPath, recursive, l, acc). listing_weight l)"
    using listing_weight_member by simp
qed

text \<open>
  \<^verbatim>\<open>scanDirectory(sourcePath, recursive, sessionId)\<close> on a root with the listing \<open>root\<close>.
  Neither pass throws, so the \<^verbatim>\<open>catch\<close> block that sets the status \<^verbatim>\<open>error\<close> is not
  entered.
\<close>

definition scanDirectory ::
  "runtime \<Rightarrow> path \<Rightarrow> bool \<Rightarrow> nat option \<Rightarrow> listing \<Rightarrow> state \<Rightarrow> state \<times> scan_status" where
  "scanDirectory rt sourcePath' recursive sessionId' root s =
     (let currentScanStatus =
            \<lparr>run_status = ''in_progress'', totalFiles = 0, processedFiles = 0,
             skippedFiles = 0, errorFiles = 0, sessionId = sessionId',
             sourcePath = sourcePath', newFiles = 0\<rparr>;
          total = countFiles sourcePath' recursive root;
          (s', st) = processDirectory rt sourcePath' recursive root
                       (s, currentScanStatus\<lparr>totalFiles := total\<rparr>)
      in (s', st\<lparr>run_status := ''completed''\<rparr>))"

subsection \<open>Scanner: what a failure does to a scan\<close>

text \<open>
  The number of directories a scan visits and cannot list, the root included.
\<close>

function failedDirectories :: "path \<Rightarrow> bool \<Rightarrow> listing \<Rightarrow> nat" where
  "failedDirectories dirPath recursive (Inl message) = 1"
| "failedDirectories dirPath recursive (Inr entries) =
     sum_list (map (\<lambda>subdir. failedDirectories (fst subdir) recursive (snd subdir))
                   (subdirsOf dirPath recursive entries))"
  by pat_completeness auto
termination
proof (relation "measure (\<lambda>(dirPath, recursive, l). listing_weight l)")
  show "wf (measure (\<lambda>(dirPath, recursive, l). listing_weight l))"
    by simp
next
  fix dirPath :: path and recursive :: bool and entries :: "dirent list"
    and subdir :: "path \<times> listing"
  assume "subdir \<in> set (subdirsOf dirPath recursive entries)"
  then obtain name where "DirEnt name (snd subdir) \<in> set entries"
    using subdirsOf_member [of "fst subdir" "snd subdir" dirPath recursive entries] by auto
  then show "((fst subdir, recursive, snd subdir), (dirPath, recursive, Inr entries))
               \<in> measure (\<lambda>(dirPath, recursive, l). listing_weight l)"
    using listing_weight_member by simp
qed

text \<open>
  The bookkeeping between two points of a scan during which \<open>n\<close> files were processed and
  \<open>d\<close> directories could not be listed.
\<close>

definition advanced ::
  "nat \<Rightarrow> nat \<Rightarrow> state \<times> scan_status \<Rightarrow> state \<times> scan_status \<Rightarrow> bool" where
  "advanced n d acc acc' \<longleftrightarrow>
     processedFiles (snd acc') = processedFiles (snd acc) + n \<and>
     totalFiles (snd acc') = totalFiles (snd acc) \<and>
     errorFiles (snd acc) \<le> errorFiles (snd acc') \<and>
     newFiles (snd acc) \<le> newFiles (snd acc') \<and>
     length (errors_table (fst acc')) + errorFiles (snd acc) =
       length (errors_table (fst acc)) + errorFiles (snd acc') + d \<and>
     length (files_table (fst acc')) + newFiles (snd acc) =
       length (files_table (fst acc)) + newFiles (snd acc') \<and>
     fs_files (fst acc') = fs_files (fst acc) \<and>
     fs_dirs (fst acc') = fs_dirs (fst acc) \<and>
     operations_table (fst acc') = operations_table (fst acc)"

lemma advanced_refl: "advanced 0 0 acc acc"
  by (simp add: advanced_def)

lemma advanced_trans:
  "advanced n d a b \<Longrightarrow> advanced n' d' b c \<Longrightarrow> advanced (n + n') (d + d') a c"
  by (simp add: advanced_def)

lemma fold_advanced:
  assumes "\<And>x acc. x \<in> set xs \<Longrightarrow> advanced (n x) (d x) acc (f x acc)"
  shows "advanced (sum_list (map n xs)) (sum_list (map d xs)) acc (fold f xs acc)"
  using assms
proof (induction xs arbitrary: acc)
  case Nil
  show ?case by (simp add: advanced_refl)
next
  case (Cons x xs)
  have "advanced (n x) (d x) acc (f x acc)"
    using Cons.prems by simp
  moreover have "advanced (sum_list (map n xs)) (sum_list (map d xs)) (f x acc) (fold f xs (f x acc))"
    using Cons.IH Cons.prems by simp
  ultimately show ?case
    using advanced_trans by fastforce
qed

lemma processFailed_advanced: "advanced 1 0 acc (processFailed filePath message acc)"
  by (cases acc) (simp add: advanced_def processFailed_def logError_def insertError_def)

lemma processFile_advanced: "advanced 1 0 acc (processFile rt filePath outcome acc)"
proof (cases acc)
  case (Pair s st)
  show ?thesis
  proof (cases "getFileByPath s filePath")
    case (Some existingFile)
    then show ?thesis
      using Pair by (simp add: processFile_def advanced_def)
  next
    case None
    show ?thesis
    proof (cases outcome)
      case (Inl message)
      then show ?thesis
        using Pair None processFailed_advanced [of acc filePath message]
        by (simp add: processFile_def)
    next
      case (Inr found)
      obtain metadata hashes where found: "found = (metadata, hashes)"
        by (cases found)
      show ?thesis
        using Pair None Inr found
        by (simp add: processFile_def insertFile_def Let_def advanced_def)
    qed
  qed
qed

lemma processBatches_fold:
  "processBatches rt files i acc =
     fold (\<lambda>filePath. processFile rt (fst filePath) (snd filePath)) (drop i files) acc"
proof (induction rt files i acc rule: processBatches.induct)
  case (1 rt files i acc)
  define f where "f = (\<lambda>filePath. processFile rt (fst filePath) (snd filePath))"
  define rest where "rest = drop i files"
  show ?case
  proof (cases "i < length files")
    case True
    have "fold f rest acc = fold f (take batchSize rest @ drop batchSize rest) acc"
      by (simp only: append_take_drop_id)
    also have "\<dots> = fold f (drop batchSize rest) (fold f (take batchSize rest) acc)"
      by (simp only: fold_append comp_apply)
    finally have unfolded:
      "fold f rest acc = fold f (drop batchSize rest) (fold f (take batchSize rest) acc)" .
    have shifted: "drop batchSize rest = drop (i + batchSize) files"
      by (simp add: rest_def add.commute)
    have "processBatches rt files i acc =
            processBatches rt files (i + batchSize) (processBatch rt (take batchSize rest) acc)"
      using True by (subst processBatches.simps) (simp add: rest_def)
    also have "\<dots> = fold f (drop (i + batchSize) files) (processBatch rt (take batchSize rest) acc)"
      using 1 [OF True] by (simp only: f_def rest_def)
    also have "\<dots> = fold f rest acc"
      using unfolded shifted by (simp add: processBatch_def f_def)
    finally show ?thesis
      by (simp only: f_def rest_def)
  next
    case False
    then show ?thesis
      by (subst processBatches.simps) simp
  qed
qed

lemma processBatches_advanced:
  "advanced (length files) 0 acc (processBatches rt files 0 acc)"
proof -
  have "advanced (sum_list (map (\<lambda>x. 1) files)) (sum_list (map (\<lambda>x. 0) files)) acc
          (fold (\<lambda>filePath. processFile rt (fst filePath) (snd filePath)) files acc)"
    by (rule fold_advanced) (rule processFile_advanced)
  then show ?thesis
    by (simp add: processBatches_fold sum_list_triv)
qed

lemma countFiles_fold:
  "fold (\<lambda>entry count.
           case entry of
             FileEnt name outcome \<Rightarrow> if \<not> shouldSkipFile name then count + 1 else count
           | DirEnt name sub \<Rightarrow>
               if recursive \<and> \<not> shouldSkipDirectory name
               then count + countFiles (join dirPath name) recursive sub
               else count
           | OtherEnt name \<Rightarrow> count)
        entries c =
   c + length (filesOf dirPath entries)
     + sum_list (map (\<lambda>subdir. countFiles (fst subdir) recursive (snd subdir))
                     (subdirsOf dirPath recursive entries))"
  by (induction dirPath recursive entries arbitrary: c rule: subdirsOf.induct) simp_all

lemma countFiles_Inr:
  "countFiles dirPath recursive (Inr entries) =
     length (filesOf dirPath entries)
       + sum_list (map (\<lambda>subdir. countFiles (fst subdir) recursive (snd subdir))
                       (subdirsOf dirPath recursive entries))"
  by (simp add: countFiles_fold)

lemma skipped_advanced:
  "advanced 0 0 acc (case acc of (s, st) \<Rightarrow> (s, st\<lparr>skippedFiles := skippedFiles st + k\<rparr>))"
  by (cases acc) (simp add: advanced_def)

lemma processDirectory_advanced:
  "advanced (countFiles dirPath recursive l) (failedDirectories dirPath recursive l) acc
     (processDirectory rt dirPath recursive l acc)"
proof (induction rt dirPath recursive l acc rule: processDirectory.induct)
  case (1 rt dirPath recursive message acc)
  show ?case
    by (cases acc) (simp add: advanced_def logError_def insertError_def)
next
  case (2 rt dirPath recursive entries acc)
  define acc1 where
    "acc1 = (case acc of (s, st) \<Rightarrow> (s, st\<lparr>skippedFiles := skippedFiles st + skippedOf entries\<rparr>))"
  define acc2 where "acc2 = processBatches rt (filesOf dirPath entries) 0 acc1"
  have a1: "advanced 0 0 acc acc1"
    unfolding acc1_def by (rule skipped_advanced)
  have a2: "advanced (length (filesOf dirPath entries)) 0 acc1 acc2"
    unfolding acc2_def by (rule processBatches_advanced)
  have a3: "advanced
              (sum_list (map (\<lambda>subdir. countFiles (fst subdir) recursive (snd subdir))
                             (subdirsOf dirPath recursive entries)))
              (sum_list (map (\<lambda>subdir. failedDirectories (fst subdir) recursive (snd subdir))
                             (subdirsOf dirPath recursive entries)))
              acc2
              (fold (\<lambda>subdir. processDirectory rt (fst subdir) recursive (snd subdir))
                    (subdirsOf dirPath recursive entries) acc2)"
    by (rule fold_advanced) (rule 2)
  have "advanced (0 + length (filesOf dirPath entries)
                    + sum_list (map (\<lambda>subdir. countFiles (fst subdir) recursive (snd subdir))
                                    (subdirsOf dirPath recursive entries)))
                 (0 + 0 + sum_list (map (\<lambda>subdir. failedDirectories (fst subdir) recursive (snd subdir))
                                    (subdirsOf dirPath recursive entries)))
                 acc
                 (fold (\<lambda>subdir. processDirectory rt (fst subdir) recursive (snd subdir))
                    (subdirsOf dirPath recursive entries) acc2)"
    by (rule advanced_trans [OF advanced_trans [OF a1 a2] a3])
  then show ?case
    by (simp add: countFiles_fold acc1_def acc2_def)
qed

text \<open>
  A tree with a readable photo, a file whose extraction throws, a file skipped by name, a
  directory that cannot be listed, and a readable directory holding one more photo.
\<close>

definition example_photo :: "string \<Rightarrow> string \<Rightarrow> string + metadata \<times> hashes" where
  "example_photo name h =
     Inr (\<lparr>exifDate = Some ''2023-07-15T10:30:00.000Z'',
           createdAt = Some ''2023-08-01T00:00:00.000Z'',
           modifiedAt = Some ''2023-09-01T00:00:00.000Z'',
           meta_filename = name, meta_extension = ''.jpg'', meta_category = ''image'',
           meta_mimeType = ''image/jpeg'', meta_size = 5, meta_exif = ''null''\<rparr>,
          \<lparr>full = h, partial = h\<rparr>)"

definition example_tree :: listing where
  "example_tree =
     Inr [FileEnt ''a.jpg'' (example_photo ''a.jpg'' ''sha256:one''),
          FileEnt ''broken.jpg'' (Inl ''EACCES: permission denied''),
          FileEnt ''.DS_Store'' (Inl ''EACCES: permission denied''),
          DirEnt ''locked'' (Inl ''EACCES: permission denied''),
          DirEnt ''sub'' (Inr [FileEnt ''b.jpg'' (example_photo ''b.jpg'' ''sha256:two'')])]"

lemma example_joins:
  "join ''/src'' ''a.jpg'' = ''/src/a.jpg''"
  "join ''/src'' ''broken.jpg'' = ''/src/broken.jpg''"
  "join ''/src'' ''locked'' = ''/src/locked''"
  "join ''/src'' ''sub'' = ''/src/sub''"
  "join ''/src/sub'' ''b.jpg'' = ''/src/sub/b.jpg''"
  by code_simp+

lemma example_skips:
  "\<not> shouldSkipFile ''a.jpg''" "\<not> shouldSkipFile ''broken.jpg''" "shouldSkipFile ''.DS_Store''"
  "\<not> shouldSkipFile ''b.jpg''" "\<not> shouldSkipDirectory ''locked''" "\<not> shouldSkipDirectory ''sub''"
  by (simp_all add: shouldSkipFile_def shouldSkipDirectory_def skipFiles_def skipDirectories_def)

lemma example_count: "countFiles ''/src'' True example_tree = 3"
  by (simp add: example_tree_def example_skips example_joins)

lemma example_failed: "failedDirectories ''/src'' True example_tree = 1"
  by (simp add: example_tree_def example_skips example_joins)

lemma example_scan:
  "map original_path (files_table (fst (scanDirectory test_runtime ''/src'' True None example_tree empty_state)))
     = [''/src/a.jpg'', ''/src/sub/b.jpg'']"
  "map (\<lambda>e. (file_path e, error_type e)) (errors_table (fst (scanDirectory test_runtime ''/src'' True None example_tree empty_state)))
     = [(''/src/broken.jpg'', ''file_processing''), (''/src/locked'', ''directory_access'')]"
  "snd (scanDirectory test_runtime ''/src'' True None example_tree empty_state)
     = \<lparr>run_status = ''completed'', totalFiles = 3, processedFiles = 3,
             skippedFiles = 1, errorFiles = 1, sessionId = None,
             sourcePath = ''/src'', newFiles = 2\<rparr>"
  by (simp_all add: scanDirectory_def example_count example_tree_def example_skips example_joins
       processBatches_fold processFile_def processFailed_def insertFile_def logError_def
       insertError_def getFileByPath_def empty_state_def example_photo_def Let_def)


lemma scanDirectory_advanced:
  "advanced (countFiles sourcePath' recursive root) (failedDirectories sourcePath' recursive root)
     (s, \<lparr>run_status = ''in_progress'', totalFiles = countFiles sourcePath' recursive root,
          processedFiles = 0, skippedFiles = 0, errorFiles = 0, sessionId = sessionId',
          sourcePath = sourcePath', newFiles = 0\<rparr>)
     (fst (scanDirectory rt sourcePath' recursive sessionId' root s),
      snd (scanDirectory rt sourcePath' recursive sessionId' root s))"
proof -
  define start where
    "start = (s, \<lparr>run_status = ''in_progress'', totalFiles = countFiles sourcePath' recursive root,
                  processedFiles = 0, skippedFiles = 0, errorFiles = 0, sessionId = sessionId',
                  sourcePath = sourcePath', newFiles = 0\<rparr>)"
  have "advanced (countFiles sourcePath' recursive root) (failedDirectories sourcePath' recursive root)
          start (processDirectory rt sourcePath' recursive root start)"
    by (rule processDirectory_advanced)
  then show ?thesis
    by (cases "processDirectory rt sourcePath' recursive root start")
       (simp add: scanDirectory_def start_def advanced_def)
qed

text \<open>
  C7, the scan of a root that cannot be listed: the scan ends with the status
  \<^verbatim>\<open>completed\<close>, not \<^verbatim>\<open>error\<close>, with no file counted and one record of the category
  \<^verbatim>\<open>directory_access\<close> in the errors table (as the repository's integration test of a
  non-existent directory expects).
\<close>

theorem scanDirectory_root_counterexample:
  "run_status (snd (scanDirectory test_runtime ''/missing'' True None
                      (Inl ''ENOENT: no such file or directory'') empty_state)) = ''completed''
   \<and> run_status (snd (scanDirectory test_runtime ''/missing'' True None
                      (Inl ''ENOENT: no such file or directory'') empty_state)) \<noteq> ''error''
   \<and> totalFiles (snd (scanDirectory test_runtime ''/missing'' True None
                      (Inl ''ENOENT: no such file or directory'') empty_state)) = 0
   \<and> errorFiles (snd (scanDirectory test_runtime ''/missing'' True None
                      (Inl ''ENOENT: no such file or directory'') empty_state)) = 0
   \<and> errors_table (fst (scanDirectory test_runtime ''/missing'' True None
                      (Inl ''ENOENT: no such file or directory'') empty_state))
       = [\<lparr>error_id = 1, error_file_id = None, file_path = ''/missing'',
           error_type = ''directory_access'',
           error_message = ''ENOENT: no such file or directory''\<rparr>]"
  by (simp add: scanDirectory_def logError_def insertError_def empty_state_def)

text \<open>
  C7, as the code has it. No failure is fatal: every scan ends with the status
  \<^verbatim>\<open>completed\<close>, whatever cannot be read, the root included. Every eligible file of every
  directory that can be listed is processed (\<open>processedFiles = totalFiles\<close>, the count of the
  first pass), so no failure aborts a batch or the scan. A file whose processing throws
  is counted in \<open>errorFiles\<close> and recorded in the errors table with the category
  \<^verbatim>\<open>file_processing\<close>; a directory that cannot be listed, the root or a subdirectory, is
  recorded with the category \<^verbatim>\<open>directory_access\<close> and is not counted: the errors table
  grows by \<open>errorFiles\<close> plus the number of directories that could not be listed. The
  files table grows by \<open>newFiles\<close>, and the filesystem is not touched.
\<close>

theorem scanDirectory_failures:
  "run_status (snd (scanDirectory rt sourcePath' recursive sessionId' root s)) = ''completed''
   \<and> totalFiles (snd (scanDirectory rt sourcePath' recursive sessionId' root s))
       = countFiles sourcePath' recursive root
   \<and> processedFiles (snd (scanDirectory rt sourcePath' recursive sessionId' root s))
       = countFiles sourcePath' recursive root
   \<and> length (errors_table (fst (scanDirectory rt sourcePath' recursive sessionId' root s)))
       = length (errors_table s)
         + errorFiles (snd (scanDirectory rt sourcePath' recursive sessionId' root s))
         + failedDirectories sourcePath' recursive root
   \<and> length (files_table (fst (scanDirectory rt sourcePath' recursive sessionId' root s)))
       = length (files_table s)
         + newFiles (snd (scanDirectory rt sourcePath' recursive sessionId' root s))
   \<and> fs_files (fst (scanDirectory rt sourcePath' recursive sessionId' root s)) = fs_files s
   \<and> fs_dirs (fst (scanDirectory rt sourcePath' recursive sessionId' root s)) = fs_dirs s
   \<and> (getFileByPath s filePath = None \<longrightarrow>
        processFile rt filePath (Inl message) (s, st)
          = (logError None filePath ''file_processing'' message s,
             st\<lparr>processedFiles := processedFiles st + 1, errorFiles := errorFiles st + 1\<rparr>))
   \<and> processDirectory rt dirPath recursive (Inl message) (s, st)
       = (logError None dirPath ''directory_access'' message s, st)"
proof -
  have status: "run_status (snd (scanDirectory rt sourcePath' recursive sessionId' root s)) = ''completed''"
    by (simp add: scanDirectory_def Let_def split: prod.splits)
  have counts:
    "totalFiles (snd (scanDirectory rt sourcePath' recursive sessionId' root s))
       = countFiles sourcePath' recursive root"
    "processedFiles (snd (scanDirectory rt sourcePath' recursive sessionId' root s))
       = countFiles sourcePath' recursive root"
    "length (errors_table (fst (scanDirectory rt sourcePath' recursive sessionId' root s)))
       = length (errors_table s)
         + errorFiles (snd (scanDirectory rt sourcePath' recursive sessionId' root s))
         + failedDirectories sourcePath' recursive root"
    "length (files_table (fst (scanDirectory rt sourcePath' recursive sessionId' root s)))
       = length (files_table s)
         + newFiles (snd (scanDirectory rt sourcePath' recursive sessionId' root s))"
    "fs_files (fst (scanDirectory rt sourcePath' recursive sessionId' root s)) = fs_files s"
    "fs_dirs (fst (scanDirectory rt sourcePath' recursive sessionId' root s)) = fs_dirs s"
    using scanDirectory_advanced [of sourcePath' recursive root s sessionId' rt]
    by (simp_all add: advanced_def)
  have failing: "getFileByPath s filePath = None \<longrightarrow>
        processFile rt filePath (Inl message) (s, st)
          = (logError None filePath ''file_processing'' message s,
             st\<lparr>processedFiles := processedFiles st + 1, errorFiles := errorFiles st + 1\<rparr>)"
    by (simp add: processFile_def processFailed_def)
  have unreadable: "processDirectory rt dirPath recursive (Inl message) (s, st)
       = (logError None dirPath ''directory_access'' message s, st)"
    by simp
  show ?thesis
    using status counts failing unreadable by blast
qed

theorem scanDirectory_failures_witness:
  "getFileByPath empty_state ''/src/broken.jpg'' = None
   \<and> snd (scanDirectory test_runtime ''/src'' True None example_tree empty_state)
       = \<lparr>run_status = ''completed'', totalFiles = 3, processedFiles = 3,
          skippedFiles = 1, errorFiles = 1, sessionId = None,
          sourcePath = ''/src'', newFiles = 2\<rparr>
   \<and> countFiles ''/src'' True example_tree = 3
   \<and> failedDirectories ''/src'' True example_tree = 1
   \<and> length (errors_table (fst (scanDirectory test_runtime ''/src'' True None example_tree empty_state))) = 2
   \<and> length (files_table (fst (scanDirectory test_runtime ''/src'' True None example_tree empty_state))) = 2
   \<and> map (\<lambda>e. (file_path e, error_type e))
        (errors_table (fst (scanDirectory test_runtime ''/src'' True None example_tree empty_state)))
       = [(''/src/broken.jpg'', ''file_processing''), (''/src/locked'', ''directory_access'')]
   \<and> processFile test_runtime ''/src/broken.jpg'' (Inl ''EACCES: permission denied'')
        (empty_state, snd (scanDirectory test_runtime ''/src'' True None (Inr []) empty_state))
       = (logError None ''/src/broken.jpg'' ''file_processing'' ''EACCES: permission denied'' empty_state,
          \<lparr>run_status = ''completed'', totalFiles = 0, processedFiles = 1,
           skippedFiles = 0, errorFiles = 1, sessionId = None,
           sourcePath = ''/src'', newFiles = 0\<rparr>)"
proof -
  have absent: "getFileByPath empty_state ''/src/broken.jpg'' = None"
    by (simp add: getFileByPath_def empty_state_def)
  have idle: "snd (scanDirectory test_runtime ''/src'' True None (Inr []) empty_state)
                = \<lparr>run_status = ''completed'', totalFiles = 0, processedFiles = 0,
                   skippedFiles = 0, errorFiles = 0, sessionId = None,
                   sourcePath = ''/src'', newFiles = 0\<rparr>"
    by (simp add: scanDirectory_def processBatches_fold)
  note general = scanDirectory_failures [of test_runtime "''/src''" True None example_tree empty_state
      "''/src/broken.jpg''" "''EACCES: permission denied''"
      "snd (scanDirectory test_runtime ''/src'' True None (Inr []) empty_state)" "''/src''"]
  have tables: "errors_table empty_state = []" "files_table empty_state = []"
    by (simp_all add: empty_state_def)
  have lengths:
    "length (errors_table (fst (scanDirectory test_runtime ''/src'' True None example_tree empty_state))) = 2"
    "length (files_table (fst (scanDirectory test_runtime ''/src'' True None example_tree empty_state))) = 2"
    using general tables by (simp_all add: example_scan example_failed)
  have failing: "processFile test_runtime ''/src/broken.jpg'' (Inl ''EACCES: permission denied'')
        (empty_state, snd (scanDirectory test_runtime ''/src'' True None (Inr []) empty_state))
       = (logError None ''/src/broken.jpg'' ''file_processing'' ''EACCES: permission denied'' empty_state,
          \<lparr>run_status = ''completed'', totalFiles = 0, processedFiles = 1,
           skippedFiles = 0, errorFiles = 1, sessionId = None,
           sourcePath = ''/src'', newFiles = 0\<rparr>)"
    using general absent by (simp add: idle)
  show ?thesis
    using absent lengths failing example_scan example_count example_failed by simp
qed

subsection \<open>Scanner: scanning twice\<close>

text \<open>The original paths the catalogue holds.\<close>

definition cataloguedPaths :: "state \<Rightarrow> path set" where
  "cataloguedPaths s = original_path ` set (files_table s)"

text \<open>
  The files a scan processes, in the order it processes them, and among them the paths of
  those whose extraction does not throw.
\<close>

function visitedFiles :: "path \<Rightarrow> bool \<Rightarrow> listing \<Rightarrow> (path \<times> (string + metadata \<times> hashes)) list" where
  "visitedFiles dirPath recursive (Inl message) = []"
| "visitedFiles dirPath recursive (Inr entries) =
     filesOf dirPath entries
       @ concat (map (\<lambda>subdir. visitedFiles (fst subdir) recursive (snd subdir))
                     (subdirsOf dirPath recursive entries))"
  by pat_completeness auto
termination
proof (relation "measure (\<lambda>(dirPath, recursive, l). listing_weight l)")
  show "wf (measure (\<lambda>(dirPath, recursive, l). listing_weight l))"
    by simp
next
  fix dirPath :: path and recursive :: bool and entries :: "dirent list"
    and subdir :: "path \<times> listing"
  assume "subdir \<in> set (subdirsOf dirPath recursive entries)"
  then obtain name where "DirEnt name (snd subdir) \<in> set entries"
    using subdirsOf_member [of "fst subdir" "snd subdir" dirPath recursive entries] by auto
  then show "((fst subdir, recursive, snd subdir), (dirPath, recursive, Inr entries))
               \<in> measure (\<lambda>(dirPath, recursive, l). listing_weight l)"
    using listing_weight_member by simp
qed

definition readable :: "(path \<times> (string + metadata \<times> hashes)) list \<Rightarrow> path set" where
  "readable files = fst ` {f \<in> set files. \<not> isl (snd f)}"

lemma readable_single: "readable [(p, outcome)] = (if isl outcome then {} else {p})"
  by (auto simp add: readable_def)

lemma readable_append: "readable (xs @ ys) = readable xs \<union> readable ys"
  by (auto simp add: readable_def)

lemma readable_concat: "readable (concat xss) = (\<Union>xs\<in>set xss. readable xs)"
  by (induction xss) (simp_all add: readable_append, simp add: readable_def)

lemma getFileByPath_None: "getFileByPath s p = None \<longleftrightarrow> p \<notin> cataloguedPaths s"
  by (auto simp add: getFileByPath_def cataloguedPaths_def find_None_iff)

text \<open>From one point of a scan to a later one, the catalogue only gains paths, and it gains none twice.\<close>

definition extends :: "state \<times> scan_status \<Rightarrow> state \<times> scan_status \<Rightarrow> bool" where
  "extends acc acc' \<longleftrightarrow>
     cataloguedPaths (fst acc) \<subseteq> cataloguedPaths (fst acc') \<and>
     (distinct (map original_path (files_table (fst acc)))
        \<longrightarrow> distinct (map original_path (files_table (fst acc'))))"

lemma extends_refl: "extends acc acc"
  by (simp add: extends_def)

lemma extends_trans: "extends a b \<Longrightarrow> extends b c \<Longrightarrow> extends a c"
  by (auto simp add: extends_def)

lemma processFailed_tables:
  "files_table (fst (processFailed filePath message acc)) = files_table (fst acc)"
  "newFiles (snd (processFailed filePath message acc)) = newFiles (snd acc)"
  by (cases acc, simp add: processFailed_def logError_def insertError_def)+

lemma processFile_known:
  "filePath \<in> cataloguedPaths s \<Longrightarrow>
     processFile rt filePath outcome (s, st)
       = (s, st\<lparr>processedFiles := processedFiles st + 1, skippedFiles := skippedFiles st + 1\<rparr>)"
  using getFileByPath_None [of s filePath]
  by (cases "getFileByPath s filePath") (simp_all add: processFile_def)

lemma processFile_inserts:
  assumes "filePath \<notin> cataloguedPaths s"
  shows "map original_path (files_table (fst (processFile rt filePath (Inr found) (s, st))))
           = map original_path (files_table s) @ [filePath]"
proof -
  obtain metadata hashes where found: "found = (metadata, hashes)"
    by (cases found)
  have "getFileByPath s filePath = None"
    using assms by (simp add: getFileByPath_None)
  then show ?thesis
    using found by (simp add: processFile_def insertFile_def Let_def)
qed

lemma processFile_extends: "extends acc (processFile rt filePath outcome acc)"
proof (cases acc)
  case (Pair s st)
  show ?thesis
  proof (cases "filePath \<in> cataloguedPaths s")
    case True
    then show ?thesis
      using Pair by (simp add: processFile_known extends_def)
  next
    case False
    then have absent: "getFileByPath s filePath = None"
      by (simp add: getFileByPath_None)
    show ?thesis
    proof (cases outcome)
      case (Inl message)
      then show ?thesis
        using Pair absent processFailed_tables(1) [of filePath message acc]
        by (simp add: processFile_def extends_def cataloguedPaths_def)
    next
      case (Inr found)
      have "map original_path (files_table (fst (processFile rt filePath outcome acc)))
              = map original_path (files_table s) @ [filePath]"
        using processFile_inserts [OF False] Pair Inr by simp
      moreover have "cataloguedPaths s = set (map original_path (files_table s))"
        "cataloguedPaths (fst (processFile rt filePath outcome acc))
           = set (map original_path (files_table (fst (processFile rt filePath outcome acc))))"
        by (simp_all add: cataloguedPaths_def)
      ultimately show ?thesis
        using False Pair by (auto simp add: extends_def)
    qed
  qed
qed

lemma processFile_covers:
  "readable [(filePath, outcome)] \<subseteq> cataloguedPaths (fst (processFile rt filePath outcome (s, st)))"
proof (cases "filePath \<in> cataloguedPaths s")
  case True
  then show ?thesis
    by (simp add: processFile_known readable_single)
next
  case False
  show ?thesis
  proof (cases outcome)
    case (Inl message)
    then show ?thesis
      by (simp add: readable_single)
  next
    case (Inr found)
    have "set (map original_path (files_table (fst (processFile rt filePath outcome (s, st)))))
            = set (map original_path (files_table s) @ [filePath])"
      using processFile_inserts [OF False] Inr by simp
    then show ?thesis
      using Inr by (auto simp add: readable_single cataloguedPaths_def)
  qed
qed

lemma fold_covers:
  assumes "\<And>x acc. x \<in> set xs \<Longrightarrow>
             extends acc (f x acc) \<and> c x \<subseteq> cataloguedPaths (fst (f x acc))"
  shows "extends acc (fold f xs acc) \<and> (\<Union>x\<in>set xs. c x) \<subseteq> cataloguedPaths (fst (fold f xs acc))"
  using assms
proof (induction xs arbitrary: acc)
  case Nil
  show ?case by (simp add: extends_refl)
next
  case (Cons x xs)
  have step: "extends acc (f x acc)" "c x \<subseteq> cataloguedPaths (fst (f x acc))"
    using Cons.prems by simp_all
  have rest: "extends (f x acc) (fold f xs (f x acc))"
    "(\<Union>x\<in>set xs. c x) \<subseteq> cataloguedPaths (fst (fold f xs (f x acc)))"
    using Cons.IH [of "f x acc"] Cons.prems by simp_all
  have "c x \<subseteq> cataloguedPaths (fst (fold f xs (f x acc)))"
    using step(2) rest(1) by (auto simp add: extends_def)
  then show ?case
    using extends_trans [OF step(1) rest(1)] rest(2) by simp
qed

lemma readable_singletons: "(\<Union>x\<in>set xs. readable [x]) = readable xs"
  by (auto simp add: readable_def)

lemma processBatches_covers:
  "extends acc (processBatches rt files 0 acc)
   \<and> readable files \<subseteq> cataloguedPaths (fst (processBatches rt files 0 acc))"
proof -
  have "extends acc (fold (\<lambda>filePath. processFile rt (fst filePath) (snd filePath)) files acc)
        \<and> (\<Union>x\<in>set files. readable [x])
            \<subseteq> cataloguedPaths (fst (fold (\<lambda>filePath. processFile rt (fst filePath) (snd filePath)) files acc))"
  proof (rule fold_covers)
    fix x :: "path \<times> (string + metadata \<times> hashes)" and acc' :: "state \<times> scan_status"
    show "extends acc' (processFile rt (fst x) (snd x) acc')
          \<and> readable [x] \<subseteq> cataloguedPaths (fst (processFile rt (fst x) (snd x) acc'))"
      using processFile_extends [of acc' rt "fst x" "snd x"]
        processFile_covers [of "fst x" "snd x" rt "fst acc'" "snd acc'"]
      by simp
  qed
  then show ?thesis
    by (simp add: processBatches_fold readable_singletons)
qed

lemma processDirectory_covers:
  "extends acc (processDirectory rt dirPath recursive l acc)
   \<and> readable (visitedFiles dirPath recursive l)
       \<subseteq> cataloguedPaths (fst (processDirectory rt dirPath recursive l acc))"
proof (induction rt dirPath recursive l acc rule: processDirectory.induct)
  case (1 rt dirPath recursive message acc)
  show ?case
    by (cases acc)
       (simp add: extends_def cataloguedPaths_def logError_def insertError_def readable_def)
next
  case (2 rt dirPath recursive entries acc)
  define acc1 where
    "acc1 = (case acc of (s, st) \<Rightarrow> (s, st\<lparr>skippedFiles := skippedFiles st + skippedOf entries\<rparr>))"
  define acc2 where "acc2 = processBatches rt (filesOf dirPath entries) 0 acc1"
  define acc3 where
    "acc3 = fold (\<lambda>subdir. processDirectory rt (fst subdir) recursive (snd subdir))
              (subdirsOf dirPath recursive entries) acc2"
  have a1: "extends acc acc1"
    unfolding acc1_def by (cases acc) (simp add: extends_def cataloguedPaths_def)
  have a2: "extends acc1 acc2" "readable (filesOf dirPath entries) \<subseteq> cataloguedPaths (fst acc2)"
    unfolding acc2_def using processBatches_covers by simp_all
  have a3: "extends acc2 acc3
            \<and> (\<Union>subdir\<in>set (subdirsOf dirPath recursive entries).
                  readable (visitedFiles (fst subdir) recursive (snd subdir)))
                \<subseteq> cataloguedPaths (fst acc3)"
    unfolding acc3_def by (rule fold_covers) (rule 2)
  have "readable (filesOf dirPath entries) \<subseteq> cataloguedPaths (fst acc3)"
    using a2(2) a3 by (auto simp add: extends_def)
  moreover have "extends acc acc3"
    using extends_trans [OF extends_trans [OF a1 a2(1)] conjunct1 [OF a3]] .
  moreover have "processDirectory rt dirPath recursive (Inr entries) acc = acc3"
    by (simp add: acc1_def acc2_def acc3_def)
  ultimately show ?case
    using a3 by (simp add: readable_append readable_concat)
qed

text \<open>Between two points of a scan, no row was added and no file was counted as new.\<close>

definition settled :: "state \<times> scan_status \<Rightarrow> state \<times> scan_status \<Rightarrow> bool" where
  "settled acc acc' \<longleftrightarrow>
     files_table (fst acc') = files_table (fst acc) \<and> newFiles (snd acc') = newFiles (snd acc)"

lemma settled_paths: "settled acc acc' \<Longrightarrow> cataloguedPaths (fst acc') = cataloguedPaths (fst acc)"
  by (simp add: settled_def cataloguedPaths_def)

lemma settled_trans: "settled a b \<Longrightarrow> settled b c \<Longrightarrow> settled a c"
  by (simp add: settled_def)

lemma fold_settled:
  assumes "\<And>x acc. x \<in> set xs \<Longrightarrow> c x \<subseteq> cataloguedPaths (fst acc) \<Longrightarrow> settled acc (f x acc)"
    and "(\<Union>x\<in>set xs. c x) \<subseteq> cataloguedPaths (fst acc)"
  shows "settled acc (fold f xs acc)"
  using assms
proof (induction xs arbitrary: acc)
  case Nil
  show ?case by (simp add: settled_def)
next
  case (Cons x xs)
  have step: "settled acc (f x acc)"
    using Cons.prems by simp
  have "(\<Union>x\<in>set xs. c x) \<subseteq> cataloguedPaths (fst (f x acc))"
    using Cons.prems(2) settled_paths [OF step] by simp
  then have "settled (f x acc) (fold f xs (f x acc))"
    using Cons.IH [of "f x acc"] Cons.prems(1) by simp
  then show ?case
    using step settled_trans by fastforce
qed

lemma processFile_settled:
  assumes "readable [(filePath, outcome)] \<subseteq> cataloguedPaths (fst acc)"
  shows "settled acc (processFile rt filePath outcome acc)"
proof (cases acc)
  case (Pair s st)
  show ?thesis
  proof (cases "filePath \<in> cataloguedPaths s")
    case True
    then show ?thesis
      using Pair by (simp add: processFile_known settled_def)
  next
    case False
    then have absent: "getFileByPath s filePath = None"
      by (simp add: getFileByPath_None)
    from False assms Pair obtain message where "outcome = Inl message"
      by (cases outcome) (simp_all add: readable_single)
    then show ?thesis
      using Pair absent processFailed_tables [of filePath message acc]
      by (simp add: processFile_def settled_def)
  qed
qed

lemma processBatches_settled:
  assumes "readable files \<subseteq> cataloguedPaths (fst acc)"
  shows "settled acc (processBatches rt files 0 acc)"
proof -
  have "settled acc (fold (\<lambda>filePath. processFile rt (fst filePath) (snd filePath)) files acc)"
  proof (rule fold_settled [where c = "\<lambda>x. readable [x]"])
    fix x :: "path \<times> (string + metadata \<times> hashes)" and acc' :: "state \<times> scan_status"
    assume "readable [x] \<subseteq> cataloguedPaths (fst acc')"
    then show "settled acc' (processFile rt (fst x) (snd x) acc')"
      using processFile_settled [of "fst x" "snd x" acc' rt] by simp
  next
    show "(\<Union>x\<in>set files. readable [x]) \<subseteq> cataloguedPaths (fst acc)"
      using assms by (simp add: readable_singletons)
  qed
  then show ?thesis
    by (simp add: processBatches_fold)
qed

lemma processDirectory_settled:
  "readable (visitedFiles dirPath recursive l) \<subseteq> cataloguedPaths (fst acc) \<Longrightarrow>
     settled acc (processDirectory rt dirPath recursive l acc)"
proof (induction rt dirPath recursive l acc rule: processDirectory.induct)
  case (1 rt dirPath recursive message acc)
  show ?case
    by (cases acc) (simp add: settled_def logError_def insertError_def)
next
  case (2 rt dirPath recursive entries acc)
  define acc1 where
    "acc1 = (case acc of (s, st) \<Rightarrow> (s, st\<lparr>skippedFiles := skippedFiles st + skippedOf entries\<rparr>))"
  define acc2 where "acc2 = processBatches rt (filesOf dirPath entries) 0 acc1"
  define acc3 where
    "acc3 = fold (\<lambda>subdir. processDirectory rt (fst subdir) recursive (snd subdir))
              (subdirsOf dirPath recursive entries) acc2"
  have known:
    "readable (filesOf dirPath entries) \<subseteq> cataloguedPaths (fst acc)"
    "(\<Union>subdir\<in>set (subdirsOf dirPath recursive entries).
        readable (visitedFiles (fst subdir) recursive (snd subdir))) \<subseteq> cataloguedPaths (fst acc)"
    using 2(2) by (simp_all add: readable_append readable_concat)
  have a1: "settled acc acc1"
    unfolding acc1_def by (cases acc) (simp add: settled_def)
  have a2: "settled acc1 acc2"
    unfolding acc2_def using known(1) settled_paths [OF a1] by (simp add: processBatches_settled)
  have same: "cataloguedPaths (fst acc2) = cataloguedPaths (fst acc)"
    using settled_paths [OF a1] settled_paths [OF a2] by simp
  have a3: "settled acc2 acc3"
    unfolding acc3_def
  proof (rule fold_settled
           [where c = "\<lambda>subdir. readable (visitedFiles (fst subdir) recursive (snd subdir))"])
    fix subdir :: "path \<times> listing" and acc' :: "state \<times> scan_status"
    assume "subdir \<in> set (subdirsOf dirPath recursive entries)"
      and "readable (visitedFiles (fst subdir) recursive (snd subdir)) \<subseteq> cataloguedPaths (fst acc')"
    then show "settled acc' (processDirectory rt (fst subdir) recursive (snd subdir) acc')"
      by (rule 2(1))
  next
    show "(\<Union>subdir\<in>set (subdirsOf dirPath recursive entries).
             readable (visitedFiles (fst subdir) recursive (snd subdir))) \<subseteq> cataloguedPaths (fst acc2)"
      using known(2) same by simp
  qed
  have "processDirectory rt dirPath recursive (Inr entries) acc = acc3"
    by (simp add: acc1_def acc2_def acc3_def)
  then show ?case
    using settled_trans [OF settled_trans [OF a1 a2] a3] by simp
qed

lemma scanDirectory_unfold:
  "scanDirectory rt sourcePath' recursive sessionId' root s =
     (fst (processDirectory rt sourcePath' recursive root
             (s, \<lparr>run_status = ''in_progress'', totalFiles = countFiles sourcePath' recursive root,
                  processedFiles = 0, skippedFiles = 0, errorFiles = 0, sessionId = sessionId',
                  sourcePath = sourcePath', newFiles = 0\<rparr>)),
      (snd (processDirectory rt sourcePath' recursive root
             (s, \<lparr>run_status = ''in_progress'', totalFiles = countFiles sourcePath' recursive root,
                  processedFiles = 0, skippedFiles = 0, errorFiles = 0, sessionId = sessionId',
                  sourcePath = sourcePath', newFiles = 0\<rparr>)))\<lparr>run_status := ''completed''\<rparr>)"
  by (simp add: scanDirectory_def Let_def split: prod.splits)

lemma scanDirectory_covers:
  "extends (s, st) (scanDirectory rt sourcePath' recursive sessionId' root s)"
  "readable (visitedFiles sourcePath' recursive root)
     \<subseteq> cataloguedPaths (fst (scanDirectory rt sourcePath' recursive sessionId' root s))"
  using processDirectory_covers [of
      "(s, \<lparr>run_status = ''in_progress'', totalFiles = countFiles sourcePath' recursive root,
           processedFiles = 0, skippedFiles = 0, errorFiles = 0, sessionId = sessionId',
           sourcePath = sourcePath', newFiles = 0\<rparr>)" rt sourcePath' recursive root]
  by (simp_all add: scanDirectory_unfold extends_def)

lemma scanDirectory_settled:
  assumes "readable (visitedFiles sourcePath' recursive root) \<subseteq> cataloguedPaths s"
  shows "files_table (fst (scanDirectory rt sourcePath' recursive sessionId' root s)) = files_table s"
    and "newFiles (snd (scanDirectory rt sourcePath' recursive sessionId' root s)) = 0"
  using assms processDirectory_settled [of sourcePath' recursive root
      "(s, \<lparr>run_status = ''in_progress'', totalFiles = countFiles sourcePath' recursive root,
           processedFiles = 0, skippedFiles = 0, errorFiles = 0, sessionId = sessionId',
           sourcePath = sourcePath', newFiles = 0\<rparr>)" rt]
  by (simp_all add: scanDirectory_unfold settled_def)

text \<open>
  C9: a second scan of the same tree, at any later instant, counts no new file and adds no
  row, and a catalogue whose original paths are pairwise distinct keeps them so through
  every processed file and through both scans.
\<close>

theorem scanDirectory_idempotent:
  assumes "distinct (map original_path (files_table s))"
  shows "let once = scanDirectory rt sourcePath' recursive sessionId' root s;
             twice = scanDirectory rt sourcePath' recursive sessionId'' root ((fst once)\<lparr>clock := t\<rparr>)
         in newFiles (snd twice) = 0
            \<and> files_table (fst twice) = files_table (fst once)
            \<and> distinct (map original_path (files_table (fst once)))
            \<and> distinct (map original_path (files_table (fst twice)))
            \<and> distinct (map original_path
                  (files_table (fst (processFile rt filePath outcome (s, st)))))"
proof -
  define once where "once = scanDirectory rt sourcePath' recursive sessionId' root s"
  define later where "later = (fst once)\<lparr>clock := t\<rparr>"
  define twice where "twice = scanDirectory rt sourcePath' recursive sessionId'' root later"
  have "extends (s, st) once"
    unfolding once_def by (rule scanDirectory_covers(1))
  then have d1: "distinct (map original_path (files_table (fst once)))"
    using assms by (simp add: extends_def)
  have "readable (visitedFiles sourcePath' recursive root) \<subseteq> cataloguedPaths (fst once)"
    unfolding once_def by (rule scanDirectory_covers(2))
  then have known: "readable (visitedFiles sourcePath' recursive root) \<subseteq> cataloguedPaths later"
    by (simp add: later_def cataloguedPaths_def)
  have same: "files_table (fst twice) = files_table later" and none: "newFiles (snd twice) = 0"
    unfolding twice_def using scanDirectory_settled [OF known] by simp_all
  have later: "files_table later = files_table (fst once)"
    by (simp add: later_def)
  have step: "distinct (map original_path (files_table (fst (processFile rt filePath outcome (s, st)))))"
    using processFile_extends [of "(s, st)" rt filePath outcome] assms by (simp add: extends_def)
  show ?thesis
    using d1 same none later step
    by (simp add: Let_def once_def [symmetric] later_def [symmetric] twice_def [symmetric])
qed

theorem scanDirectory_idempotent_witness:
  "distinct (map original_path (files_table empty_state))
   \<and> map original_path
        (files_table (fst (scanDirectory test_runtime ''/src'' True None example_tree empty_state)))
       = [''/src/a.jpg'', ''/src/sub/b.jpg'']
   \<and> newFiles (snd (scanDirectory test_runtime ''/src'' True None example_tree empty_state)) = 2
   \<and> newFiles (snd (scanDirectory test_runtime ''/src'' True None example_tree
        ((fst (scanDirectory test_runtime ''/src'' True None example_tree empty_state))
           \<lparr>clock := 1700000060000\<rparr>))) = 0
   \<and> map original_path (files_table (fst (scanDirectory test_runtime ''/src'' True None example_tree
        ((fst (scanDirectory test_runtime ''/src'' True None example_tree empty_state))
           \<lparr>clock := 1700000060000\<rparr>))))
       = [''/src/a.jpg'', ''/src/sub/b.jpg'']"
proof -
  have d: "distinct (map original_path (files_table empty_state))"
    by (simp add: empty_state_def)
  note general = scanDirectory_idempotent [OF d, of test_runtime "''/src''" True None example_tree
      None 1700000060000 "''/src/a.jpg''" "Inl ''EACCES: permission denied''"
      "snd (scanDirectory test_runtime ''/src'' True None example_tree empty_state)"]
  have twice:
    "newFiles (snd (scanDirectory test_runtime ''/src'' True None example_tree
        ((fst (scanDirectory test_runtime ''/src'' True None example_tree empty_state))
           \<lparr>clock := 1700000060000\<rparr>))) = 0"
    "files_table (fst (scanDirectory test_runtime ''/src'' True None example_tree
        ((fst (scanDirectory test_runtime ''/src'' True None example_tree empty_state))
           \<lparr>clock := 1700000060000\<rparr>)))
       = files_table (fst (scanDirectory test_runtime ''/src'' True None example_tree empty_state))"
    using general by (simp_all add: Let_def)
  show ?thesis
    using d twice example_scan by simp
qed

end
